theory Spec2Isabelle
  imports Main "HOL-Library.Char_ord" "HOL-Library.List_Lexorder" "HOL-Library.Multiset"
begin

section \<open>Values, declarations and options (src/src/types.ts)\<close>

text \<open>
  Values are the primitives and objects. An object is the list of the properties a read
  finds on it (its own ones and the ones it inherits), in insertion order; a property is a
  data property holding a value, or an accessor. Reading an accessor runs its getter, which
  returns a value (\<open>Inr\<close>) or raises one (\<open>Inl\<close>); that the getter ran is recorded in the
  log of the state, since a getter is code of the caller and may do anything. A proxy
  behaves as an object all of whose properties are accessors. Strings are compared by code
  unit, which is the order the default \<^verbatim>\<open>Array.prototype.sort\<close> uses; here that is the
  lexicographic order on \<^typ>\<open>string\<close>.
\<close>

datatype jsval = JUndefined | JNull | JBool bool | JNum int | JStr string
  | JObj "(string \<times> property) list"
and property = Data jsval | Accessor "jsval + jsval"

text \<open>\<^verbatim>\<open>v == null\<close>: true of \<^verbatim>\<open>null\<close> and \<^verbatim>\<open>undefined\<close> only.\<close>

fun isNullish :: "jsval \<Rightarrow> bool" where
  "isNullish JUndefined = True"
| "isNullish JNull = True"
| "isNullish _ = False"

text \<open>\<^verbatim>\<open>typeof v === "object"\<close>.\<close>

fun typeofObject :: "jsval \<Rightarrow> bool" where
  "typeofObject JNull = True"
| "typeofObject (JObj _) = True"
| "typeofObject _ = False"

text \<open>
  \<^verbatim>\<open>o[k] = v\<close> on the own properties of a result object: an existing key keeps its place
  and gets the value, a new key is appended. A key \<^verbatim>\<open>__proto__\<close> that the object does not
  own reaches the setter of \<^verbatim>\<open>Object.prototype\<close>: the assignment replaces the prototype
  at most and creates no key. (A target class with a setter for a declared key is not
  modelled.)
\<close>

fun setProp :: "(string \<times> property) list \<Rightarrow> string \<Rightarrow> jsval \<Rightarrow> (string \<times> property) list" where
  "setProp [] k v = (if k = ''__proto__'' then [] else [(k, Data v)])"
| "setProp (p # ps) k v = (if fst p = k then (k, Data v) # ps else p # setProp ps k v)"

record MappingContext =
  extras :: "(string \<times> jsval) list option"
  depth :: "nat option"
  visited :: "(jsval \<times> jsval) list option"

text \<open>
  A transform may raise; what it raises is propagated by the compiled mapper unchanged.
  \<open>TypeError\<close> is what the runtime raises when a function is used as a path string.
\<close>

datatype error = TypeError | Thrown jsval

type_synonym TransformFn = "jsval \<Rightarrow> MappingContext \<Rightarrow> error + jsval"

text \<open>\<^verbatim>\<open>source: PropertyPath | TransformFn\<close>.\<close>

datatype PropertySource = PropertyPath string | Transform TransformFn

record PropertyMappingConfig =
  targetKey :: string
  source :: PropertySource
  isTransform :: bool
  groups :: "string list"
  ignore :: bool

text \<open>
  \<^verbatim>\<open>MapOptions\<close>: every field is optional. The field \<^verbatim>\<open>extras\<close> is named
  \<open>optExtras\<close> here, \<open>extras\<close> being the field of the context.
\<close>

record MapOptions =
  pick :: "string list option"
  omit :: "string list option"
  group :: "string option"
  optExtras :: "(string \<times> jsval) list option"

type_synonym Constructor = nat

record MappingRegistryEntry =
  targetType :: Constructor
  propertyConfigs :: "(string \<times> PropertyMappingConfig) list"
  fieldGroups :: "string \<rightharpoonup> string list"

text \<open>
  A compiled mapper is a function object: \<open>fid\<close> is its identity (two mappers are the same
  instance iff they have the same \<open>fid\<close>), the other fields are what the closure built by
  \<^verbatim>\<open>buildMapper\<close> captures. A path mapping keeps the declaration's source as it is,
  as the cast \<^verbatim>\<open>prop.source as string\<close> does.
\<close>

record CompiledMapper =
  fid :: nat
  mapperTargetType :: Constructor
  pathMappings :: "(string \<times> PropertySource) list"
  transformMappings :: "(string \<times> TransformFn) list"

section \<open>The process state\<close>

text \<open>
  The log records the calls the claims speak of: each \<^verbatim>\<open>Reflect.getMetadata\<close>, each
  path lookup, each call of a transform, and each run of a getter of the source, by the
  key read. It is an observation only; nothing reads it.
\<close>

datatype metadataKey = PROPERTY_MAPPINGS | FIELD_GROUPS

datatype event = GetMetadata metadataKey Constructor
  | PathLookup string
  | CallTransform string
  | RunAccessor string

text \<open>
  \<open>propertyMappingsMetadata\<close> and \<open>fieldGroupsMetadata\<close> are what the decorators have
  stored on each class, \<open>newInstance\<close> gives the own properties of \<^verbatim>\<open>new targetType()\<close>;
  no operation below writes them (the decorators run when a class is defined, before any
  call of the mapper; a constructor that raises or has effects is not modelled). \<open>registry\<close> and \<open>compiledMappers\<close> are the two
  private maps of \<^verbatim>\<open>MappingRegistryClass\<close>, \<open>pathCache\<close> is the module-level
  cache of split paths, \<open>globalContext\<close> the static field of \<^verbatim>\<open>Mapper\<close>, and
  \<open>nextFunction\<close> is the identity the next function object gets.
\<close>

record world =
  propertyMappingsMetadata :: "Constructor \<rightharpoonup> (string \<times> PropertyMappingConfig) list"
  fieldGroupsMetadata :: "Constructor \<rightharpoonup> (string \<rightharpoonup> string list)"
  newInstance :: "Constructor \<Rightarrow> (string \<times> property) list"
  registry :: "Constructor \<rightharpoonup> MappingRegistryEntry"
  compiledMappers :: "Constructor \<rightharpoonup> (string \<rightharpoonup> CompiledMapper)"
  pathCache :: "string \<rightharpoonup> string list"
  globalContext :: MappingContext
  nextFunction :: nat
  trace :: "event list"

definition logEvent :: "event \<Rightarrow> world \<Rightarrow> world" where
  "logEvent e s = s\<lparr>trace := trace s @ [e]\<rparr>"

text \<open>
  \<^verbatim>\<open>v[k]\<close> on a value that is not null: the value of a data property, what the getter of
  an accessor returns or raises, and \<^verbatim>\<open>undefined\<close> when there is no such property. The
  list of a source object holds the properties a read finds, its own and the inherited ones
  alike, and an accessor stands for every read that runs code, the get trap of a proxy
  included; the run is logged. The properties of the wrappers of primitive values are left
  out.
\<close>

fun getProp :: "jsval \<Rightarrow> string \<Rightarrow> world \<Rightarrow> (error + jsval) \<times> world" where
  "getProp (JObj ps) k s =
     (case map_of ps k of
        None \<Rightarrow> (Inr JUndefined, s)
      | Some (Data v) \<Rightarrow> (Inr v, s)
      | Some (Accessor (Inr v)) \<Rightarrow> (Inr v, logEvent (RunAccessor k) s)
      | Some (Accessor (Inl e)) \<Rightarrow> (Inl (Thrown e), logEvent (RunAccessor k) s))"
| "getProp v k s = (Inr JUndefined, s)"

section \<open>Path resolution (getNestedValue)\<close>

definition BLOCKED_KEYS :: "string set" where
  "BLOCKED_KEYS = {''__proto__'', ''constructor'', ''prototype''}"

text \<open>\<^verbatim>\<open>path.split(".")\<close>: never empty; the empty string gives one empty segment.\<close>

fun splitPath :: "string \<Rightarrow> string list" where
  "splitPath [] = [[]]"
| "splitPath (c # cs) =
     (if c = CHR ''.'' then [] # splitPath cs
      else (case splitPath cs of
              [] \<Rightarrow> [[c]]
            | seg # segs \<Rightarrow> (c # seg) # segs))"

text \<open>
  The loop over the segments, with \<open>current\<close> as its variable: each round checks the
  segment, then \<open>current\<close>, then reads the property, so the properties of the segments
  before a blocked one have been read when it is met.
\<close>

fun walkSegments :: "string list \<Rightarrow> jsval \<Rightarrow> world \<Rightarrow> (error + jsval) \<times> world" where
  "walkSegments [] current s = (Inr current, s)"
| "walkSegments (seg # segs) current s =
     (if seg \<in> BLOCKED_KEYS then (Inr JUndefined, s)
      else if isNullish current \<or> \<not> typeofObject current then (Inr JUndefined, s)
      else (case getProp current seg s of
              (Inl e, s1) \<Rightarrow> (Inl e, s1)
            | (Inr v, s1) \<Rightarrow> walkSegments segs v s1))"

text \<open>
  \<open>getNestedValue\<close> returns the value, or what a getter raised, and the state: the first
  line logs the call, and a path with a dot that is not in \<open>pathCache\<close> is split and
  stored there.
\<close>

definition getNestedValue ::
  "jsval \<Rightarrow> string \<Rightarrow> world \<Rightarrow> (error + jsval) \<times> world" where
  "getNestedValue obj path s0 =
     (let s = logEvent (PathLookup path) s0 in
      if isNullish obj then (Inr JUndefined, s)
      else if CHR ''.'' \<notin> set path then
        (if path \<in> BLOCKED_KEYS then (Inr JUndefined, s) else getProp obj path s)
      else
        (case pathCache s path of
           Some segments \<Rightarrow> walkSegments segments obj s
         | None \<Rightarrow>
             (let segments = splitPath path
              in walkSegments segments obj
                   (s\<lparr>pathCache := (pathCache s)(path \<mapsto> segments)\<rparr>))))"

section \<open>The registry (MappingRegistryClass)\<close>

text \<open>
  The two reads of \<^verbatim>\<open>Reflect.getMetadata\<close> are logged; a class without metadata gives
  the empty maps. The optional fields \<^verbatim>\<open>sourceType\<close> and \<^verbatim>\<open>compiledMapper\<close> of an
  entry are never set and are left out of the record.
\<close>

definition createEntryFromMetadata :: "Constructor \<Rightarrow> world \<Rightarrow> MappingRegistryEntry \<times> world" where
  "createEntryFromMetadata T s =
     (let s1 = logEvent (GetMetadata PROPERTY_MAPPINGS T) s;
          propertyMappings = (case propertyMappingsMetadata s1 T of Some m \<Rightarrow> m | None \<Rightarrow> []);
          s2 = logEvent (GetMetadata FIELD_GROUPS T) s1;
          fieldGroups' = (case fieldGroupsMetadata s2 T of Some g \<Rightarrow> g | None \<Rightarrow> Map.empty)
      in (\<lparr>targetType = T, propertyConfigs = propertyMappings, fieldGroups = fieldGroups'\<rparr>, s2))"

definition getEntry :: "Constructor \<Rightarrow> world \<Rightarrow> MappingRegistryEntry \<times> world" where
  "getEntry T s =
     (case registry s T of
        Some entry \<Rightarrow> (entry, s)
      | None \<Rightarrow>
          (let (entry, s1) = createEntryFromMetadata T s
           in (entry, s1\<lparr>registry := (registry s1)(T \<mapsto> entry)\<rparr>)))"

text \<open>The second parameter defaults to \<^verbatim>\<open>"default"\<close> when it is not given.\<close>

definition getCompiledMapper ::
  "Constructor \<Rightarrow> string option \<Rightarrow> world \<Rightarrow> CompiledMapper option \<times> world" where
  "getCompiledMapper T optionsKey s =
     (let key = (case optionsKey of Some k \<Rightarrow> k | None \<Rightarrow> ''default'')
      in (case compiledMappers s T of
            None \<Rightarrow> (None, s)
          | Some typeMappers \<Rightarrow> (typeMappers key, s)))"

definition setCompiledMapper :: "Constructor \<Rightarrow> string \<Rightarrow> CompiledMapper \<Rightarrow> world \<Rightarrow> world" where
  "setCompiledMapper T optionsKey mapper s =
     (let typeMappers = (case compiledMappers s T of Some tm \<Rightarrow> tm | None \<Rightarrow> Map.empty)
      in s\<lparr>compiledMappers := (compiledMappers s)(T \<mapsto> typeMappers(optionsKey \<mapsto> mapper))\<rparr>)"

definition clearCache :: "world \<Rightarrow> world" where
  "clearCache s = s\<lparr>registry := Map.empty\<rparr>"

text \<open>\<^verbatim>\<open>xs.join(",")\<close>.\<close>

fun join :: "string list \<Rightarrow> string" where
  "join [] = []"
| "join [x] = x"
| "join (x # y # zs) = x @ '','' @ join (y # zs)"

text \<open>
  \<^verbatim>\<open>getOptionsKey\<close> returns the key; \<^verbatim>\<open>sort()\<close> sorts the array of the caller's
  options object in place, so the options as the caller sees them afterwards are returned
  too. An array is truthy even when empty; a group name is truthy when it is not empty.
\<close>

definition getOptionsKey :: "MapOptions option \<Rightarrow> string \<times> MapOptions option" where
  "getOptionsKey options =
     (case options of
        None \<Rightarrow> (''default'', None)
      | Some opts \<Rightarrow>
          (case pick opts of
             Some p \<Rightarrow> (''pick:'' @ join (sort p), Some (opts\<lparr>pick := Some (sort p)\<rparr>))
           | None \<Rightarrow>
               (case omit opts of
                  Some q \<Rightarrow> (''omit:'' @ join (sort q), Some (opts\<lparr>omit := Some (sort q)\<rparr>))
                | None \<Rightarrow>
                    (case group opts of
                       Some g \<Rightarrow>
                         if g \<noteq> [] then (''group:'' @ g, options) else (''default'', options)
                     | None \<Rightarrow> (''default'', options)))))"

section \<open>The compiler (MapperFactory)\<close>

text \<open>
  The tests of the source on optional fields: \<^verbatim>\<open>options.group\<close> holds for a string
  that is not empty, \<^verbatim>\<open>options.pick && options.pick.length > 0\<close> for an array that is
  not empty.
\<close>

fun truthyString :: "string option \<Rightarrow> bool" where
  "truthyString None = False"
| "truthyString (Some g) = (g \<noteq> [])"

fun nonEmptyArray :: "string list option \<Rightarrow> bool" where
  "nonEmptyArray None = False"
| "nonEmptyArray (Some xs) = (xs \<noteq> [])"

fun stringOf :: "string option \<Rightarrow> string" where
  "stringOf None = []"
| "stringOf (Some g) = g"

fun arrayOf :: "string list option \<Rightarrow> string list" where
  "arrayOf None = []"
| "arrayOf (Some xs) = xs"

definition getPropertiesToMap ::
  "MappingRegistryEntry \<Rightarrow> MapOptions option \<Rightarrow> PropertyMappingConfig list" where
  "getPropertiesToMap entry options =
     (let allConfigs = filter (\<lambda>config. \<not> ignore config) (map snd (propertyConfigs entry))
      in case options of
           None \<Rightarrow> allConfigs
         | Some opts \<Rightarrow>
             if truthyString (group opts) then
               (case fieldGroups entry (stringOf (group opts)) of
                  Some groupFields \<Rightarrow>
                    filter (\<lambda>config. targetKey config \<in> set groupFields) allConfigs
                | None \<Rightarrow> [])
             else if nonEmptyArray (pick opts) then
               filter (\<lambda>config. targetKey config \<in> set (arrayOf (pick opts))) allConfigs
             else if nonEmptyArray (omit opts) then
               filter (\<lambda>config. targetKey config \<notin> set (arrayOf (omit opts))) allConfigs
             else allConfigs)"

text \<open>
  One step of the loop of \<^verbatim>\<open>buildMapper\<close> that separates the declarations: a transform
  mapping when \<^verbatim>\<open>prop.isTransform && typeof prop.source === "function"\<close>, a path
  mapping otherwise.
\<close>

definition addMapping ::
  "PropertyMappingConfig \<Rightarrow>
   (string \<times> PropertySource) list \<times> (string \<times> TransformFn) list \<Rightarrow>
   (string \<times> PropertySource) list \<times> (string \<times> TransformFn) list" where
  "addMapping prop acc =
     (case acc of (pms, tms) \<Rightarrow>
        (case source prop of
           Transform f \<Rightarrow>
             if isTransform prop then (pms, tms @ [(targetKey prop, f)])
             else (pms @ [(targetKey prop, source prop)], tms)
         | PropertyPath p \<Rightarrow> (pms @ [(targetKey prop, source prop)], tms)))"

definition buildMapper ::
  "Constructor \<Rightarrow> MappingRegistryEntry \<Rightarrow> PropertyMappingConfig list \<Rightarrow> world \<Rightarrow>
   CompiledMapper \<times> world" where
  "buildMapper T entry properties s =
     (case fold addMapping properties ([], []) of (pms, tms) \<Rightarrow>
        (\<lparr>fid = nextFunction s, mapperTargetType = T,
          pathMappings = pms, transformMappings = tms\<rparr>,
         s\<lparr>nextFunction := Suc (nextFunction s)\<rparr>))"

text \<open>
  The body of the function \<^verbatim>\<open>buildMapper\<close> returns: its two loops, then the call. A
  path mapping that holds a function makes \<^verbatim>\<open>path.includes\<close> raise a type error; a
  transform is logged when it is called, and what it or a getter of the source raises ends
  the call.
\<close>

fun applyPathMappings ::
  "(string \<times> PropertySource) list \<Rightarrow> jsval \<Rightarrow> (string \<times> property) list \<Rightarrow> world \<Rightarrow>
   (error + (string \<times> property) list) \<times> world" where
  "applyPathMappings [] src result s = (Inr result, s)"
| "applyPathMappings ((target, PropertyPath path) # ms) src result s =
     (case getNestedValue src path s of
        (Inl e, s1) \<Rightarrow> (Inl e, s1)
      | (Inr v, s1) \<Rightarrow> applyPathMappings ms src (setProp result target v) s1)"
| "applyPathMappings ((target, Transform f) # ms) src result s = (Inl TypeError, s)"

fun applyTransformMappings ::
  "(string \<times> TransformFn) list \<Rightarrow> jsval \<Rightarrow> MappingContext \<Rightarrow> (string \<times> property) list \<Rightarrow>
   world \<Rightarrow> (error + (string \<times> property) list) \<times> world" where
  "applyTransformMappings [] src ctx result s = (Inr result, s)"
| "applyTransformMappings ((target, f) # ms) src ctx result s =
     (let s1 = logEvent (CallTransform target) s
      in case f src ctx of
           Inl e \<Rightarrow> (Inl e, s1)
         | Inr v \<Rightarrow> applyTransformMappings ms src ctx (setProp result target v) s1)"

definition invoke ::
  "CompiledMapper \<Rightarrow> jsval \<Rightarrow> MappingContext \<Rightarrow> world \<Rightarrow> (error + jsval) \<times> world" where
  "invoke mapper src ctx s =
     (if isNullish src then (Inr JNull, s)
      else
        (case applyPathMappings (pathMappings mapper) src
                (newInstance s (mapperTargetType mapper)) s of
           (Inl e, s1) \<Rightarrow> (Inl e, s1)
         | (Inr r1, s1) \<Rightarrow>
             (case applyTransformMappings (transformMappings mapper) src ctx r1 s1 of
                (Inl e, s2) \<Rightarrow> (Inl e, s2)
              | (Inr r2, s2) \<Rightarrow> (Inr (JObj r2), s2))))"

text \<open>
  \<^verbatim>\<open>MapperFactory.createMapper\<close> returns the mapper, the options as
  \<^verbatim>\<open>getOptionsKey\<close> left them, and the new state.
\<close>

definition createMapper ::
  "Constructor \<Rightarrow> MapOptions option \<Rightarrow> world \<Rightarrow> CompiledMapper \<times> MapOptions option \<times> world" where
  "createMapper T options s =
     (case getEntry T s of (entry, s1) \<Rightarrow>
      (case getOptionsKey options of (optionsKey, options1) \<Rightarrow>
       (case getCompiledMapper T (Some optionsKey) s1 of
          (Some compiledMapper, s2) \<Rightarrow> (compiledMapper, options1, s2)
        | (None, s2) \<Rightarrow>
            (let propertiesToMap = getPropertiesToMap entry options1
             in case buildMapper T entry propertiesToMap s2 of (compiledMapper, s3) \<Rightarrow>
                  (compiledMapper, options1, setCompiledMapper T optionsKey compiledMapper s3)))))"

section \<open>The facade (Mapper)\<close>

definition makeContext :: "MapOptions option \<Rightarrow> world \<Rightarrow> MappingContext" where
  "makeContext options s =
     (globalContext s)\<lparr>extras := (case options of None \<Rightarrow> None | Some opts \<Rightarrow> optExtras opts),
                       depth := Some 0, visited := Some []\<rparr>"

definition Mapper_map ::
  "jsval \<Rightarrow> Constructor \<Rightarrow> MapOptions option \<Rightarrow> world \<Rightarrow>
   (error + jsval) \<times> MapOptions option \<times> world" where
  "Mapper_map src T options s =
     (if isNullish src then (Inr JNull, options, s)
      else
        (case createMapper T options s of (mapper, options1, s1) \<Rightarrow>
           (case invoke mapper src (makeContext options1 s1) s1 of
              (r, s2) \<Rightarrow> (r, options1, s2))))"

text \<open>The argument of \<^verbatim>\<open>mapArray\<close>: an array, or any other value.\<close>

datatype sources = NotArray jsval | IsArray "jsval list"

fun mapArrayLoop ::
  "CompiledMapper \<Rightarrow> MappingContext \<Rightarrow> jsval list \<Rightarrow> world \<Rightarrow> (error + jsval list) \<times> world" where
  "mapArrayLoop mapper ctx [] s = (Inr [], s)"
| "mapArrayLoop mapper ctx (x # xs) s =
     (if \<not> isNullish x then
        (case invoke mapper x ctx s of
           (Inl e, s1) \<Rightarrow> (Inl e, s1)
         | (Inr y, s1) \<Rightarrow>
             (case mapArrayLoop mapper ctx xs s1 of
                (Inl e, s2) \<Rightarrow> (Inl e, s2)
              | (Inr ys, s2) \<Rightarrow> (Inr (y # ys), s2)))
      else
        (case mapArrayLoop mapper ctx xs s of
           (Inl e, s2) \<Rightarrow> (Inl e, s2)
         | (Inr ys, s2) \<Rightarrow> (Inr (JNull # ys), s2)))"

definition Mapper_mapArray ::
  "sources \<Rightarrow> Constructor \<Rightarrow> MapOptions option \<Rightarrow> world \<Rightarrow>
   (error + jsval list) \<times> MapOptions option \<times> world" where
  "Mapper_mapArray srcs T options s =
     (case srcs of
        NotArray v \<Rightarrow> (Inr [], options, s)
      | IsArray xs \<Rightarrow>
          (case createMapper T options s of (mapper, options1, s1) \<Rightarrow>
             (case mapArrayLoop mapper (makeContext options1 s1) xs s1 of
                (r, s2) \<Rightarrow> (r, options1, s2))))"

text \<open>
  The shorthands build an options object around the caller's array; the array returned is
  the caller's array after the call.
\<close>

definition Mapper_pick ::
  "jsval \<Rightarrow> Constructor \<Rightarrow> string list \<Rightarrow> world \<Rightarrow> (error + jsval) \<times> string list \<times> world" where
  "Mapper_pick src T fieldNames s =
     (case Mapper_map src T
             (Some \<lparr>pick = Some fieldNames, omit = None, group = None, optExtras = None\<rparr>) s of
        (r, options1, s1) \<Rightarrow>
          (r, (case options1 of Some opts \<Rightarrow> arrayOf (pick opts) | None \<Rightarrow> fieldNames), s1))"

definition Mapper_omit ::
  "jsval \<Rightarrow> Constructor \<Rightarrow> string list \<Rightarrow> world \<Rightarrow> (error + jsval) \<times> string list \<times> world" where
  "Mapper_omit src T fieldNames s =
     (case Mapper_map src T
             (Some \<lparr>pick = None, omit = Some fieldNames, group = None, optExtras = None\<rparr>) s of
        (r, options1, s1) \<Rightarrow>
          (r, (case options1 of Some opts \<Rightarrow> arrayOf (omit opts) | None \<Rightarrow> fieldNames), s1))"

definition Mapper_group ::
  "jsval \<Rightarrow> Constructor \<Rightarrow> string \<Rightarrow> world \<Rightarrow> (error + jsval) \<times> world" where
  "Mapper_group src T groupName s =
     (case Mapper_map src T
             (Some \<lparr>pick = None, omit = None, group = Some groupName, optExtras = None\<rparr>) s of
        (r, options1, s1) \<Rightarrow> (r, s1))"

definition Mapper_clearCache :: "world \<Rightarrow> world" where
  "Mapper_clearCache s = clearCache s"

definition Mapper_getCompiledMapper ::
  "Constructor \<Rightarrow> MapOptions option \<Rightarrow> world \<Rightarrow>
   CompiledMapper option \<times> MapOptions option \<times> world" where
  "Mapper_getCompiledMapper T options s =
     (case getOptionsKey options of (optionsKey, options1) \<Rightarrow>
        (case getCompiledMapper T (Some optionsKey) s of
           (r, s1) \<Rightarrow> (r, options1, s1)))"

text \<open>A call of the public interface, and the state it leaves.\<close>

datatype call =
    CreateMapper Constructor "MapOptions option"
  | Map jsval Constructor "MapOptions option"
  | MapArray sources Constructor "MapOptions option"
  | GetCompiledMapper Constructor "MapOptions option"
  | ClearCache

fun exec :: "call \<Rightarrow> world \<Rightarrow> world" where
  "exec (CreateMapper T options) s = snd (snd (createMapper T options s))"
| "exec (Map src T options) s = snd (snd (Mapper_map src T options s))"
| "exec (MapArray srcs T options) s = snd (snd (Mapper_mapArray srcs T options s))"
| "exec (GetCompiledMapper T options) s = snd (snd (Mapper_getCompiledMapper T options s))"
| "exec ClearCache s = Mapper_clearCache s"

definition execAll :: "call list \<Rightarrow> world \<Rightarrow> world" where
  "execAll calls s = fold exec calls s"

section \<open>The arrays of the options as objects\<close>

text \<open>
  The functions above take the pick and omit arrays for arrays that can be written. An
  array can be frozen: \<^verbatim>\<open>sort()\<close> returns an array of fewer than two elements as it is,
  and raises a \<open>TypeError\<close>, with nothing written, when it is to sort a frozen array of two
  or more. This section has the options object with its arrays as such objects, and the
  functions that derive the key from it, in the source's order.
\<close>

record FieldArray =
  items :: "string list"
  frozen :: bool

definition sortInPlace :: "FieldArray \<Rightarrow> error + FieldArray" where
  "sortInPlace a =
     (if length (items a) < 2 then Inr a
      else if frozen a then Inl TypeError
      else Inr (a\<lparr>items := sort (items a)\<rparr>))"

record CallerOptions =
  pickArray :: "FieldArray option"
  omitArray :: "FieldArray option"
  groupField :: "string option"
  extrasField :: "(string \<times> jsval) list option"

text \<open>The options with the arrays as lists of names.\<close>

definition plainOptions :: "CallerOptions \<Rightarrow> MapOptions" where
  "plainOptions opts =
     \<lparr>pick = map_option items (pickArray opts), omit = map_option items (omitArray opts),
      group = groupField opts, optExtras = extrasField opts\<rparr>"

text \<open>
  \<^verbatim>\<open>getOptionsKey\<close>: the key, or what \<^verbatim>\<open>sort()\<close> raises, and the options as the caller
  sees them afterwards.
\<close>

definition getOptionsKeyOnArrays ::
  "CallerOptions option \<Rightarrow> (error + string) \<times> CallerOptions option" where
  "getOptionsKeyOnArrays options =
     (case options of
        None \<Rightarrow> (Inr ''default'', None)
      | Some opts \<Rightarrow>
          (case pickArray opts of
             Some p \<Rightarrow>
               (case sortInPlace p of
                  Inl e \<Rightarrow> (Inl e, options)
                | Inr p1 \<Rightarrow> (Inr (''pick:'' @ join (items p1)), Some (opts\<lparr>pickArray := Some p1\<rparr>)))
           | None \<Rightarrow>
               (case omitArray opts of
                  Some q \<Rightarrow>
                    (case sortInPlace q of
                       Inl e \<Rightarrow> (Inl e, options)
                     | Inr q1 \<Rightarrow>
                         (Inr (''omit:'' @ join (items q1)), Some (opts\<lparr>omitArray := Some q1\<rparr>)))
                | None \<Rightarrow>
                    (case groupField opts of
                       Some g \<Rightarrow>
                         if g \<noteq> [] then (Inr (''group:'' @ g), options)
                         else (Inr ''default'', options)
                     | None \<Rightarrow> (Inr ''default'', options)))))"

text \<open>
  \<^verbatim>\<open>MapperFactory.createMapper\<close>: the entry is read before the key is derived, so a raise
  leaves the state after \<open>getEntry\<close>.
\<close>

definition createMapperOnArrays ::
  "Constructor \<Rightarrow> CallerOptions option \<Rightarrow> world \<Rightarrow>
   (error + CompiledMapper) \<times> CallerOptions option \<times> world" where
  "createMapperOnArrays T options s =
     (case getEntry T s of (entry, s1) \<Rightarrow>
      (case getOptionsKeyOnArrays options of
         (Inl e, options1) \<Rightarrow> (Inl e, options1, s1)
       | (Inr optionsKey, options1) \<Rightarrow>
           (case getCompiledMapper T (Some optionsKey) s1 of
              (Some compiledMapper, s2) \<Rightarrow> (Inr compiledMapper, options1, s2)
            | (None, s2) \<Rightarrow>
                (let propertiesToMap =
                       getPropertiesToMap entry (map_option plainOptions options1)
                 in case buildMapper T entry propertiesToMap s2 of (compiledMapper, s3) \<Rightarrow>
                      (Inr compiledMapper, options1,
                       setCompiledMapper T optionsKey compiledMapper s3)))))"

definition Mapper_mapOnArrays ::
  "jsval \<Rightarrow> Constructor \<Rightarrow> CallerOptions option \<Rightarrow> world \<Rightarrow>
   (error + jsval) \<times> CallerOptions option \<times> world" where
  "Mapper_mapOnArrays src T options s =
     (if isNullish src then (Inr JNull, options, s)
      else
        (case createMapperOnArrays T options s of
           (Inl e, options1, s1) \<Rightarrow> (Inl e, options1, s1)
         | (Inr mapper, options1, s1) \<Rightarrow>
             (case invoke mapper src (makeContext (map_option plainOptions options1) s1) s1 of
                (r, s2) \<Rightarrow> (r, options1, s2))))"

definition Mapper_mapArrayOnArrays ::
  "sources \<Rightarrow> Constructor \<Rightarrow> CallerOptions option \<Rightarrow> world \<Rightarrow>
   (error + jsval list) \<times> CallerOptions option \<times> world" where
  "Mapper_mapArrayOnArrays srcs T options s =
     (case srcs of
        NotArray v \<Rightarrow> (Inr [], options, s)
      | IsArray xs \<Rightarrow>
          (case createMapperOnArrays T options s of
             (Inl e, options1, s1) \<Rightarrow> (Inl e, options1, s1)
           | (Inr mapper, options1, s1) \<Rightarrow>
               (case mapArrayLoop mapper (makeContext (map_option plainOptions options1) s1) xs s1 of
                  (r, s2) \<Rightarrow> (r, options1, s2))))"

text \<open>The shorthands; the array returned is the caller's array after the call.\<close>

definition Mapper_pickOnArrays ::
  "jsval \<Rightarrow> Constructor \<Rightarrow> FieldArray \<Rightarrow> world \<Rightarrow> (error + jsval) \<times> FieldArray \<times> world" where
  "Mapper_pickOnArrays src T fieldArray s =
     (case Mapper_mapOnArrays src T
             (Some \<lparr>pickArray = Some fieldArray, omitArray = None, groupField = None,
                    extrasField = None\<rparr>) s of
        (r, options1, s1) \<Rightarrow>
          (r, (case options1 of
                 Some opts \<Rightarrow> (case pickArray opts of Some a \<Rightarrow> a | None \<Rightarrow> fieldArray)
               | None \<Rightarrow> fieldArray), s1))"

definition Mapper_omitOnArrays ::
  "jsval \<Rightarrow> Constructor \<Rightarrow> FieldArray \<Rightarrow> world \<Rightarrow> (error + jsval) \<times> FieldArray \<times> world" where
  "Mapper_omitOnArrays src T fieldArray s =
     (case Mapper_mapOnArrays src T
             (Some \<lparr>pickArray = None, omitArray = Some fieldArray, groupField = None,
                    extrasField = None\<rparr>) s of
        (r, options1, s1) \<Rightarrow>
          (r, (case options1 of
                 Some opts \<Rightarrow> (case omitArray opts of Some a \<Rightarrow> a | None \<Rightarrow> fieldArray)
               | None \<Rightarrow> fieldArray), s1))"

definition Mapper_getCompiledMapperOnArrays ::
  "Constructor \<Rightarrow> CallerOptions option \<Rightarrow> world \<Rightarrow>
   (error + CompiledMapper option) \<times> CallerOptions option \<times> world" where
  "Mapper_getCompiledMapperOnArrays T options s =
     (case getOptionsKeyOnArrays options of
        (Inl e, options1) \<Rightarrow> (Inl e, options1, s)
      | (Inr optionsKey, options1) \<Rightarrow>
          (case getCompiledMapper T (Some optionsKey) s of
             (r, s1) \<Rightarrow> (Inr r, options1, s1)))"

text \<open>No array of the options is frozen.\<close>

definition writable :: "CallerOptions option \<Rightarrow> bool" where
  "writable options =
     (case options of
        None \<Rightarrow> True
      | Some opts \<Rightarrow>
          (case pickArray opts of Some p \<Rightarrow> \<not> frozen p | None \<Rightarrow> True)
          \<and> (case omitArray opts of Some q \<Rightarrow> \<not> frozen q | None \<Rightarrow> True))"

section \<open>State invariants and frames\<close>

text \<open>
  \<open>pathCacheOk\<close>: every cached segment list is the split of its path. It holds of the empty
  cache, and \<open>getNestedValue\<close>, the only writer of the cache, keeps it.
\<close>

definition pathCacheOk :: "world \<Rightarrow> bool" where
  "pathCacheOk s = (\<forall>p segs. pathCache s p = Some segs \<longrightarrow> segs = splitPath p)"

text \<open>\<open>lookupFrame s s'\<close>: \<open>s'\<close> differs from \<open>s\<close> in the path cache and the log at most.\<close>

definition lookupFrame :: "world \<Rightarrow> world \<Rightarrow> bool" where
  "lookupFrame s s' = (s' = s\<lparr>pathCache := pathCache s', trace := trace s'\<rparr>)"

text \<open>
  \<open>entryOf s T\<close> is the entry the metadata of \<open>T\<close> gives. \<open>cacheSound\<close>: every registry
  entry is that entry, and every cached mapper was built for its target from the
  declarations that \<open>getPropertiesToMap\<close> selects for some options with the signature it
  is stored under. It holds when both maps are empty and every call of the interface
  keeps it.
\<close>

definition entryOf :: "world \<Rightarrow> Constructor \<Rightarrow> MappingRegistryEntry" where
  "entryOf s T = fst (createEntryFromMetadata T s)"

definition compiledFrom :: "world \<Rightarrow> Constructor \<Rightarrow> string \<Rightarrow> CompiledMapper \<Rightarrow> bool" where
  "compiledFrom s T k m =
     (\<exists>options. k = fst (getOptionsKey options)
        \<and> mapperTargetType m = T
        \<and> (pathMappings m, transformMappings m) =
             fold addMapping
               (getPropertiesToMap (entryOf s T) (snd (getOptionsKey options))) ([], []))"

definition cacheSound :: "world \<Rightarrow> bool" where
  "cacheSound s =
     ((\<forall>T entry. registry s T = Some entry \<longrightarrow> entry = entryOf s T)
      \<and> (\<forall>T k m. fst (getCompiledMapper T (Some k) s) = Some m \<longrightarrow> compiledFrom s T k m))"

text \<open>
  The keys a compiled mapper assigns, in the order of its two loops, and the condition
  under which both loops run to their end on a source: every path mapping holds a string
  whose lookup on the source returns, and every transform returns. (In states whose path
  cache is well formed the result of a lookup does not depend on the state.)
\<close>

definition assignedKeys :: "CompiledMapper \<Rightarrow> string list" where
  "assignedKeys m = map fst (pathMappings m) @ map fst (transformMappings m)"

definition mapperReturns :: "CompiledMapper \<Rightarrow> jsval \<Rightarrow> MappingContext \<Rightarrow> world \<Rightarrow> bool" where
  "mapperReturns m src ctx s =
     ((\<forall>p\<in>set (map snd (pathMappings m)).
         \<exists>path v. p = PropertyPath path \<and> fst (getNestedValue src path s) = Inr v)
      \<and> (\<forall>f\<in>set (map snd (transformMappings m)). \<exists>v. f src ctx = Inr v))"

text \<open>The keys the target declares.\<close>

definition declaredKeys :: "MappingRegistryEntry \<Rightarrow> string set" where
  "declaredKeys entry = targetKey ` set (map snd (propertyConfigs entry))"

section \<open>The fixture of tests/mapper.spec.ts\<close>

definition UserDto :: Constructor where
  "UserDto = 0"

definition UserWithGroupsDto :: Constructor where
  "UserWithGroupsDto = 1"

text \<open>What \<^verbatim>\<open>@AutoMap()\<close> and \<^verbatim>\<open>@MapFrom(...)\<close>, with \<^verbatim>\<open>@FieldGroup(...)\<close>, store for a key.\<close>

definition autoMapped :: "string \<Rightarrow> string list \<Rightarrow> string \<times> PropertyMappingConfig" where
  "autoMapped key gs =
     (key, \<lparr>targetKey = key, source = PropertyPath key, isTransform = False,
            groups = gs, ignore = False\<rparr>)"

definition mappedFrom ::
  "string \<Rightarrow> PropertySource \<Rightarrow> string list \<Rightarrow> string \<times> PropertyMappingConfig" where
  "mappedFrom key src gs =
     (key, \<lparr>targetKey = key, source = src,
            isTransform = (case src of Transform f \<Rightarrow> True | PropertyPath p \<Rightarrow> False),
            groups = gs, ignore = False\<rparr>)"

text \<open>\<^verbatim>\<open>(src) => src.age >= 18\<close>\<close>

definition isAdultFn :: TransformFn where
  "isAdultFn src ctx =
     (case src of
        JObj ps \<Rightarrow>
          (case map_of ps ''age'' of
             Some (Data (JNum n)) \<Rightarrow> Inr (JBool (18 \<le> n))
           | _ \<Rightarrow> Inr (JBool False))
      | _ \<Rightarrow> Inr (JBool False))"

definition testWorld :: world where
  "testWorld =
     \<lparr>propertyMappingsMetadata =
        [UserDto \<mapsto>
           [autoMapped ''username'' [],
            mappedFrom ''avatar'' (PropertyPath ''profile.avatarUrl'') [],
            mappedFrom ''isAdult'' (Transform isAdultFn) [],
            autoMapped ''email'' []],
         UserWithGroupsDto \<mapsto>
           [autoMapped ''username'' [''minimal'', ''public''],
            mappedFrom ''avatar'' (PropertyPath ''profile.avatarUrl'') [''minimal'', ''public''],
            autoMapped ''bio'' [''public'', ''full''],
            autoMapped ''email'' [''full''],
            autoMapped ''createdAt'' [''full'']]],
      fieldGroupsMetadata =
        [UserWithGroupsDto \<mapsto>
           [''minimal'' \<mapsto> [''username'', ''avatar''],
            ''public'' \<mapsto> [''username'', ''avatar'', ''bio''],
            ''full'' \<mapsto> [''bio'', ''email'', ''createdAt'']]],
      newInstance = (\<lambda>T. []),
      registry = Map.empty,
      compiledMappers = Map.empty,
      pathCache = Map.empty,
      globalContext = \<lparr>extras = None, depth = None, visited = None\<rparr>,
      nextFunction = 0,
      trace = []\<rparr>"

definition userEntity :: jsval where
  "userEntity =
     JObj [(''username'', Data (JStr ''john_doe'')), (''email'', Data (JStr ''john@example.com'')),
           (''age'', Data (JNum 25)), (''bio'', Data (JStr ''Software developer'')),
           (''createdAt'', Data (JStr ''2024-01-01'')),
           (''profile'',
            Data (JObj [(''avatarUrl'', Data (JStr ''https://example.com/avatar.jpg'')),
                        (''coverUrl'', Data (JStr ''https://example.com/cover.jpg''))]))]"

definition pickOpt :: "string list \<Rightarrow> MapOptions option" where
  "pickOpt xs = Some \<lparr>pick = Some xs, omit = None, group = None, optExtras = None\<rparr>"

definition omitOpt :: "string list \<Rightarrow> MapOptions option" where
  "omitOpt xs = Some \<lparr>pick = None, omit = Some xs, group = None, optExtras = None\<rparr>"

definition groupOpt :: "string \<Rightarrow> MapOptions option" where
  "groupOpt g = Some \<lparr>pick = None, omit = None, group = Some g, optExtras = None\<rparr>"

definition groupAndPickOpt :: "string \<Rightarrow> string list \<Rightarrow> MapOptions option" where
  "groupAndPickOpt g xs = Some \<lparr>pick = Some xs, omit = None, group = Some g, optExtras = None\<rparr>"


text \<open>A source whose property \<^verbatim>\<open>a\<close> is an accessor that raises.\<close>

definition throwingSource :: jsval where
  "throwingSource = JObj [(''a'', Accessor (Inl (JStr ''boom'')))]"

text \<open>
  A target that declares the key \<^verbatim>\<open>__proto__\<close> beside \<^verbatim>\<open>name\<close>, and a source for it. They
  are not part of the tests.
\<close>

definition ProtoDto :: Constructor where
  "ProtoDto = 2"

definition protoWorld :: world where
  "protoWorld =
     testWorld\<lparr>propertyMappingsMetadata :=
        (propertyMappingsMetadata testWorld)
          (ProtoDto \<mapsto> [autoMapped ''name'' [], autoMapped ''__proto__'' []])\<rparr>"

definition protoSource :: jsval where
  "protoSource = JObj [(''name'', Data (JStr ''n''))]"

lemmas fixture_defs =
  UserDto_def UserWithGroupsDto_def autoMapped_def mappedFrom_def isAdultFn_def
  testWorld_def userEntity_def pickOpt_def omitOpt_def

lemmas run_defs =
  createMapper_def getEntry_def createEntryFromMetadata_def logEvent_def getOptionsKey_def
  getCompiledMapper_def setCompiledMapper_def getPropertiesToMap_def buildMapper_def
  addMapping_def Mapper_map_def invoke_def makeContext_def getNestedValue_def
  BLOCKED_KEYS_def Let_def clearCache_def Mapper_clearCache_def
  Mapper_getCompiledMapper_def Mapper_mapArray_def Mapper_pick_def Mapper_omit_def

section \<open>Path resolution\<close>

lemma splitPath_nodot: "CHR ''.'' \<notin> set p \<Longrightarrow> splitPath p = [p]"
  by (induction p) auto

lemma lookupFrame_refl: "lookupFrame s s"
  by (simp add: lookupFrame_def)

lemma lookupFrame_trans: "lookupFrame s s1 \<Longrightarrow> lookupFrame s1 s2 \<Longrightarrow> lookupFrame s s2"
  unfolding lookupFrame_def
  by (metis world.surjective world.update_convs(6) world.update_convs(9))

text \<open>
  A property read gives a result that does not depend on the state, and appends to the log
  the getters it ran; it raises only when it ran one.
\<close>

lemma getProp_run:
  "\<exists>r evs. (\<forall>s. getProp v k s = (r, s\<lparr>trace := trace s @ evs\<rparr>)) \<and> (isl r \<longrightarrow> evs \<noteq> [])"
proof (cases v)
  case (JObj ps)
  show ?thesis
  proof (cases "map_of ps k")
    case None
    have "\<forall>s. getProp v k s = (Inr JUndefined, s\<lparr>trace := trace s @ []\<rparr>)"
      using JObj None by simp
    then show ?thesis by fastforce
  next
    case (Some p)
    show ?thesis
    proof (cases p)
      case (Data x)
      have "\<forall>s. getProp v k s = (Inr x, s\<lparr>trace := trace s @ []\<rparr>)"
        using JObj Some Data by simp
      then show ?thesis by fastforce
    next
      case (Accessor g)
      show ?thesis
      proof (cases g)
        case (Inl e)
        have "\<forall>s. getProp v k s = (Inl (Thrown e), s\<lparr>trace := trace s @ [RunAccessor k]\<rparr>)"
          using JObj Some Accessor Inl by (simp add: logEvent_def)
        then show ?thesis by fastforce
      next
        case (Inr x)
        have "\<forall>s. getProp v k s = (Inr x, s\<lparr>trace := trace s @ [RunAccessor k]\<rparr>)"
          using JObj Some Accessor Inr by (simp add: logEvent_def)
        then show ?thesis by fastforce
      qed
    qed
  qed
next
  case JUndefined
  have "\<forall>s. getProp v k s = (Inr JUndefined, s\<lparr>trace := trace s @ []\<rparr>)"
    using JUndefined by simp
  then show ?thesis by fastforce
next
  case JNull
  have "\<forall>s. getProp v k s = (Inr JUndefined, s\<lparr>trace := trace s @ []\<rparr>)"
    using JNull by simp
  then show ?thesis by fastforce
next
  case (JBool x)
  have "\<forall>s. getProp v k s = (Inr JUndefined, s\<lparr>trace := trace s @ []\<rparr>)"
    using JBool by simp
  then show ?thesis by fastforce
next
  case (JNum x)
  have "\<forall>s. getProp v k s = (Inr JUndefined, s\<lparr>trace := trace s @ []\<rparr>)"
    using JNum by simp
  then show ?thesis by fastforce
next
  case (JStr x)
  have "\<forall>s. getProp v k s = (Inr JUndefined, s\<lparr>trace := trace s @ []\<rparr>)"
    using JStr by simp
  then show ?thesis by fastforce
qed

lemma walkSegments_run:
  "\<exists>r evs. (\<forall>s. walkSegments segs cur s = (r, s\<lparr>trace := trace s @ evs\<rparr>))
           \<and> (isl r \<longrightarrow> evs \<noteq> [])"
proof (induction segs arbitrary: cur)
  case Nil
  have "\<forall>s. walkSegments [] cur s = (Inr cur, s\<lparr>trace := trace s @ []\<rparr>)"
    by simp
  then show ?case by fastforce
next
  case (Cons seg segs)
  show ?case
  proof (cases "seg \<in> BLOCKED_KEYS \<or> isNullish cur \<or> \<not> typeofObject cur")
    case True
    then have "\<forall>s. walkSegments (seg # segs) cur s = (Inr JUndefined, s\<lparr>trace := trace s @ []\<rparr>)"
      by auto
    then show ?thesis by fastforce
  next
    case False
    obtain r evs where g: "\<forall>s. getProp cur seg s = (r, s\<lparr>trace := trace s @ evs\<rparr>)"
      and ge: "isl r \<longrightarrow> evs \<noteq> []"
      using getProp_run [of cur seg] by blast
    show ?thesis
    proof (cases r)
      case (Inl e)
      have "\<forall>s. walkSegments (seg # segs) cur s = (Inl e, s\<lparr>trace := trace s @ evs\<rparr>)"
        using False g Inl by simp
      moreover have "evs \<noteq> []"
        using ge Inl by simp
      ultimately show ?thesis by fastforce
    next
      case (Inr v)
      obtain r2 evs2 where w: "\<forall>s. walkSegments segs v s = (r2, s\<lparr>trace := trace s @ evs2\<rparr>)"
        and we: "isl r2 \<longrightarrow> evs2 \<noteq> []"
        using Cons.IH [of v] by blast
      have "\<forall>s. walkSegments (seg # segs) cur s = (r2, s\<lparr>trace := trace s @ (evs @ evs2)\<rparr>)"
        using False g Inr w by simp
      moreover have "isl r2 \<longrightarrow> evs @ evs2 \<noteq> []"
        using we by simp
      ultimately show ?thesis by blast
    qed
  qed
qed

lemma walkSegments_frame: "lookupFrame s (snd (walkSegments segs cur s))"
proof -
  obtain r evs where "\<forall>s. walkSegments segs cur s = (r, s\<lparr>trace := trace s @ evs\<rparr>)"
    using walkSegments_run [of segs cur] by blast
  then show ?thesis
    by (simp add: lookupFrame_def)
qed

lemma getProp_frame: "lookupFrame s (snd (getProp v k s))"
proof -
  obtain r evs where "\<forall>s. getProp v k s = (r, s\<lparr>trace := trace s @ evs\<rparr>)"
    using getProp_run [of v k] by blast
  then show ?thesis
    by (simp add: lookupFrame_def)
qed

lemma getNestedValue_frame: "lookupFrame s (snd (getNestedValue obj path s))"
proof -
  let ?s1 = "logEvent (PathLookup path) s"
  let ?s2 = "?s1\<lparr>pathCache := (pathCache ?s1)(path \<mapsto> splitPath path)\<rparr>"
  have f1: "lookupFrame s ?s1"
    by (simp add: lookupFrame_def logEvent_def)
  have f2: "lookupFrame s ?s2"
    by (simp add: lookupFrame_def logEvent_def)
  have a: "\<And>v k. lookupFrame s (snd (getProp v k ?s1))"
    using f1 getProp_frame by (rule lookupFrame_trans)
  have b: "\<And>segs cur. lookupFrame s (snd (walkSegments segs cur ?s1))"
    using f1 walkSegments_frame by (rule lookupFrame_trans)
  have c: "\<And>segs cur. lookupFrame s (snd (walkSegments segs cur ?s2))"
    using f2 walkSegments_frame by (rule lookupFrame_trans)
  show ?thesis
    using f1 a b c by (simp add: getNestedValue_def Let_def split: option.splits)
qed

text \<open>A walk that meets a blocked segment is the walk of the segments before it.\<close>

lemma walkSegments_blocked:
  "seg \<in> set segs \<Longrightarrow> seg \<in> BLOCKED_KEYS \<Longrightarrow>
   walkSegments segs cur s =
     (case walkSegments (takeWhile (\<lambda>x. x \<notin> BLOCKED_KEYS) segs) cur s of
        (Inl e, s') \<Rightarrow> (Inl e, s')
      | (Inr v, s') \<Rightarrow> (Inr JUndefined, s'))"
proof (induction segs arbitrary: cur s)
  case Nil
  then show ?case by simp
next
  case (Cons x segs)
  show ?case
  proof (cases "x \<in> BLOCKED_KEYS")
    case True
    then show ?thesis by simp
  next
    case False
    then have m: "seg \<in> set segs"
      using Cons.prems by auto
    show ?thesis
    proof (cases "isNullish cur \<or> \<not> typeofObject cur")
      case True
      then show ?thesis using False by auto
    next
      case ok: False
      obtain r s1 where g: "getProp cur x s = (r, s1)"
        by (cases "getProp cur x s")
      show ?thesis
      proof (cases r)
        case (Inl e)
        then show ?thesis using False ok g by simp
      next
        case (Inr v)
        show ?thesis
          using False ok g Inr Cons.IH [OF m Cons.prems(2), of v s1] by simp
      qed
    qed
  qed
qed

lemma walkSegments_nullish:
  "isNullish cur \<Longrightarrow> \<exists>v. walkSegments segs cur s = (Inr v, s)"
  by (cases segs) auto

lemma run_unchanged:
  assumes "(r, s\<lparr>trace := trace s @ evs\<rparr>) = (Inr v, s)"
  shows "r = Inr v" and "evs = []"
proof -
  show "r = Inr v" using assms by simp
  have "trace (s\<lparr>trace := trace s @ evs\<rparr>) = trace s"
    using assms by simp
  then show "evs = []" by simp
qed

text \<open>
  C5, as amended. For a path with a blocked segment (the whole path when it has no dot) and
  any object: \<open>getNestedValue\<close> reads the properties of the segments before the first
  blocked one and nothing else, so its result is \<^verbatim>\<open>undefined\<close> unless a getter on that
  way raises, and the getters it runs are those of that way; of the state only the path
  cache and the log can differ afterwards. When the first segment is blocked, and when no
  getter lies on the way, the result is \<^verbatim>\<open>undefined\<close>, nothing is raised and no code of
  the caller runs.
\<close>

theorem getNestedValue_blocked:
  assumes "pathCacheOk s" and "seg \<in> set (splitPath path)" and "seg \<in> BLOCKED_KEYS"
  shows "fst (getNestedValue obj path s) =
           (case fst (walkSegments (takeWhile (\<lambda>x. x \<notin> BLOCKED_KEYS) (splitPath path)) obj s) of
              Inl e \<Rightarrow> Inl e
            | Inr v \<Rightarrow> Inr JUndefined)
     \<and> trace (snd (getNestedValue obj path s)) =
         trace (snd (walkSegments (takeWhile (\<lambda>x. x \<notin> BLOCKED_KEYS) (splitPath path)) obj
                       (logEvent (PathLookup path) s)))
     \<and> lookupFrame s (snd (getNestedValue obj path s))
     \<and> (hd (splitPath path) \<in> BLOCKED_KEYS \<longrightarrow>
          fst (getNestedValue obj path s) = Inr JUndefined
          \<and> trace (snd (getNestedValue obj path s)) = trace s @ [PathLookup path])
     \<and> (trace (snd (walkSegments (takeWhile (\<lambda>x. x \<notin> BLOCKED_KEYS) (splitPath path)) obj s))
           = trace s \<longrightarrow>
          fst (getNestedValue obj path s) = Inr JUndefined
          \<and> trace (snd (getNestedValue obj path s)) = trace s @ [PathLookup path])"
proof -
  let ?pre = "takeWhile (\<lambda>x. x \<notin> BLOCKED_KEYS) (splitPath path)"
  let ?s1 = "logEvent (PathLookup path) s"
  let ?s2 = "?s1\<lparr>pathCache := (pathCache ?s1)(path \<mapsto> splitPath path)\<rparr>"
  obtain r evs where W: "\<forall>s. walkSegments ?pre obj s = (r, s\<lparr>trace := trace s @ evs\<rparr>)"
    and E: "isl r \<longrightarrow> evs \<noteq> []"
    using walkSegments_run [of ?pre obj] by blast
  let ?res = "case r of Inl e \<Rightarrow> Inl e | Inr v \<Rightarrow> Inr JUndefined"
  have t1: "trace ?s1 = trace s @ [PathLookup path]" and t2: "trace ?s2 = trace s @ [PathLookup path]"
    by (simp_all add: logEvent_def)
  have K: "\<exists>S. trace S = trace s @ [PathLookup path]
             \<and> getNestedValue obj path s = (?res, S\<lparr>trace := trace S @ evs\<rparr>)"
  proof (cases "isNullish obj")
    case True
    obtain v where "walkSegments ?pre obj s = (Inr v, s)"
      using walkSegments_nullish [OF True] by blast
    then have "(r, s\<lparr>trace := trace s @ evs\<rparr>) = (Inr v, s)"
      using W by simp
    then have "r = Inr v" and "evs = []"
      by (rule run_unchanged)+
    then have "getNestedValue obj path s = (?res, ?s1\<lparr>trace := trace ?s1 @ evs\<rparr>)"
      using True by (simp add: getNestedValue_def Let_def)
    then show ?thesis using t1 by blast
  next
    case nn: False
    show ?thesis
    proof (cases "CHR ''.'' \<in> set path")
      case False
      then have sp: "splitPath path = [path]"
        by (rule splitPath_nodot)
      then have b: "path \<in> BLOCKED_KEYS"
        using assms(2,3) by simp
      then have "walkSegments ?pre obj s = (Inr obj, s)"
        using sp by simp
      then have "(r, s\<lparr>trace := trace s @ evs\<rparr>) = (Inr obj, s)"
        using W by simp
      then have "r = Inr obj" and "evs = []"
        by (rule run_unchanged)+
      then have "getNestedValue obj path s = (?res, ?s1\<lparr>trace := trace ?s1 @ evs\<rparr>)"
        using nn False b by (simp add: getNestedValue_def Let_def)
      then show ?thesis using t1 by blast
    next
      case True
      have c: "\<And>segs. pathCache s path = Some segs \<Longrightarrow> segs = splitPath path"
        using assms(1) by (simp add: pathCacheOk_def)
      have w: "\<And>S. walkSegments (splitPath path) obj S = (?res, S\<lparr>trace := trace S @ evs\<rparr>)"
      proof -
        fix S
        have "walkSegments (splitPath path) obj S =
                (case walkSegments ?pre obj S of
                   (Inl e, s') \<Rightarrow> (Inl e, s')
                 | (Inr v, s') \<Rightarrow> (Inr JUndefined, s'))"
          using assms(2,3) by (rule walkSegments_blocked)
        also have "\<dots> = (?res, S\<lparr>trace := trace S @ evs\<rparr>)"
          using W by (cases r) simp_all
        finally show "walkSegments (splitPath path) obj S = (?res, S\<lparr>trace := trace S @ evs\<rparr>)" .
      qed
      show ?thesis
      proof (cases "pathCache s path")
        case None
        have "getNestedValue obj path s = (?res, ?s2\<lparr>trace := trace ?s2 @ evs\<rparr>)"
          using nn True None w [of ?s2] by (simp add: getNestedValue_def Let_def logEvent_def)
        then show ?thesis using t2 by blast
      next
        case (Some segs)
        then have "segs = splitPath path"
          by (rule c)
        then have "getNestedValue obj path s = (?res, ?s1\<lparr>trace := trace ?s1 @ evs\<rparr>)"
          using nn True Some w [of ?s1] by (simp add: getNestedValue_def Let_def logEvent_def)
        then show ?thesis using t1 by blast
      qed
    qed
  qed
  then obtain S where tS: "trace S = trace s @ [PathLookup path]"
    and G: "getNestedValue obj path s = (?res, S\<lparr>trace := trace S @ evs\<rparr>)"
    by blast
  have Ws: "walkSegments ?pre obj s = (r, s\<lparr>trace := trace s @ evs\<rparr>)"
    and W1: "walkSegments ?pre obj ?s1 = (r, ?s1\<lparr>trace := trace ?s1 @ evs\<rparr>)"
    using W by blast+
  have a: "fst (getNestedValue obj path s) =
           (case fst (walkSegments ?pre obj s) of Inl e \<Rightarrow> Inl e | Inr v \<Rightarrow> Inr JUndefined)"
    using G Ws by simp
  have b: "trace (snd (getNestedValue obj path s)) = trace (snd (walkSegments ?pre obj ?s1))"
    using G W1 tS t1 by simp
  have c: "lookupFrame s (snd (getNestedValue obj path s))"
    by (rule getNestedValue_frame)
  have d: "fst (getNestedValue obj path s) = Inr JUndefined
          \<and> trace (snd (getNestedValue obj path s)) = trace s @ [PathLookup path]"
    if h: "hd (splitPath path) \<in> BLOCKED_KEYS"
  proof -
    have "?pre = []"
      using h by (cases "splitPath path") simp_all
    then have "walkSegments ?pre obj s = (Inr obj, s)"
      by simp
    then have "(r, s\<lparr>trace := trace s @ evs\<rparr>) = (Inr obj, s)"
      using Ws by simp
    then have "r = Inr obj" and "evs = []"
      by (rule run_unchanged)+
    then show ?thesis
      using G tS by simp
  qed
  have e: "fst (getNestedValue obj path s) = Inr JUndefined
          \<and> trace (snd (getNestedValue obj path s)) = trace s @ [PathLookup path]"
    if h: "trace (snd (walkSegments ?pre obj s)) = trace s"
  proof -
    have ev: "evs = []"
      using h Ws by simp
    then have "\<not> isl r"
      using E by blast
    then obtain v where "r = Inr v"
      by (cases r) simp_all
    then show ?thesis
      using G tS ev by simp
  qed
  show ?thesis
    using a b c d e by (intro conjI impI) blast+
qed

text \<open>
  The theorem in the state after \<^verbatim>\<open>Mapper.map(userEntity, UserDto)\<close>, whose path cache
  holds one path, for the three blocked names.
\<close>

theorem getNestedValue_blocked_witness:
  "pathCache (exec (Map userEntity UserDto None) testWorld)
     = [''profile.avatarUrl'' \<mapsto> [''profile'', ''avatarUrl'']]
   \<and> pathCacheOk (exec (Map userEntity UserDto None) testWorld)
   \<and> ''__proto__'' \<in> set (splitPath ''__proto__.polluted'')
   \<and> ''constructor'' \<in> set (splitPath ''constructor'')
   \<and> ''prototype'' \<in> set (splitPath ''profile.prototype.avatarUrl'')
   \<and> {''__proto__'', ''constructor'', ''prototype''} \<subseteq> BLOCKED_KEYS
   \<and> fst (getNestedValue userEntity ''__proto__.polluted''
            (exec (Map userEntity UserDto None) testWorld)) = Inr JUndefined
   \<and> fst (getNestedValue userEntity ''constructor''
            (exec (Map userEntity UserDto None) testWorld)) = Inr JUndefined
   \<and> fst (getNestedValue userEntity ''profile.prototype.avatarUrl''
            (exec (Map userEntity UserDto None) testWorld)) = Inr JUndefined"
proof -
  let ?s = "exec (Map userEntity UserDto None) testWorld"
  have pc: "pathCache ?s = [''profile.avatarUrl'' \<mapsto> [''profile'', ''avatarUrl'']]"
    by (simp add: fixture_defs run_defs)
  have a: "pathCacheOk ?s"
    unfolding pathCacheOk_def pc by (simp split: if_splits)
  have b1: "''__proto__'' \<in> set (splitPath ''__proto__.polluted'')"
    by simp
  have b2: "''constructor'' \<in> set (splitPath ''constructor'')"
    by simp
  have b3: "''prototype'' \<in> set (splitPath ''profile.prototype.avatarUrl'')"
    by simp
  have c1: "''__proto__'' \<in> BLOCKED_KEYS" and c2: "''constructor'' \<in> BLOCKED_KEYS"
    and c3: "''prototype'' \<in> BLOCKED_KEYS"
    by (simp_all add: BLOCKED_KEYS_def)
  have r1: "fst (getNestedValue userEntity ''__proto__.polluted'' ?s) = Inr JUndefined"
    using conjunct1 [OF getNestedValue_blocked [OF a b1 c1, of userEntity]]
    by (simp add: BLOCKED_KEYS_def)
  have r2: "fst (getNestedValue userEntity ''constructor'' ?s) = Inr JUndefined"
    using conjunct1 [OF getNestedValue_blocked [OF a b2 c2, of userEntity]]
    by (simp add: BLOCKED_KEYS_def)
  have r3: "fst (getNestedValue userEntity ''profile.prototype.avatarUrl'' ?s) = Inr JUndefined"
    using conjunct1 [OF getNestedValue_blocked [OF a b3 c3, of userEntity]]
    by (simp add: BLOCKED_KEYS_def userEntity_def)
  show ?thesis
    using pc a b1 b2 b3 c1 c2 c3 r1 r2 r3 by simp
qed

text \<open>
  C5 as stated fails on an object with an accessor: the loop reads \<^verbatim>\<open>current[segments[i]]\<close>
  for every segment before the blocked one, so with the path \<^verbatim>\<open>a.__proto__\<close> the getter
  of \<^verbatim>\<open>a\<close> runs, and here it raises.
\<close>

theorem accessor_before_blocked_segment_runs:
  "''__proto__'' \<in> set (splitPath ''a.__proto__'')
   \<and> ''__proto__'' \<in> BLOCKED_KEYS
   \<and> \<not> isNullish throwingSource
   \<and> fst (getNestedValue throwingSource ''a.__proto__'' testWorld) = Inl (Thrown (JStr ''boom''))
   \<and> trace (snd (getNestedValue throwingSource ''a.__proto__'' testWorld))
       = [PathLookup ''a.__proto__'', RunAccessor ''a'']"
  by (simp add: throwingSource_def testWorld_def getNestedValue_def logEvent_def BLOCKED_KEYS_def
      Let_def)

section \<open>Inspection\<close>

text \<open>
  C10. \<open>Mapper.getCompiledMapper\<close> and the registry's \<open>getCompiledMapper\<close> return the state
  they were given: no registry entry is created, nothing is compiled (\<open>compiledMappers\<close>
  and \<open>nextFunction\<close> stay), no metadata is read (the log stays). The result is the mapper
  cached under the derived signature, and \<^verbatim>\<open>undefined\<close> when there is none.
\<close>

theorem getCompiledMapper_read_only:
  "snd (snd (Mapper_getCompiledMapper T options s)) = s
   \<and> snd (getCompiledMapper T optionsKey s) = s
   \<and> fst (Mapper_getCompiledMapper T options s) =
       (case compiledMappers s T of
          None \<Rightarrow> None
        | Some typeMappers \<Rightarrow> typeMappers (fst (getOptionsKey options)))
   \<and> (fst (getCompiledMapper T (Some (fst (getOptionsKey options))) s) = None
        \<longrightarrow> Mapper_getCompiledMapper T options s = (None, snd (getOptionsKey options), s))"
  by (simp add: Mapper_getCompiledMapper_def getCompiledMapper_def split: prod.splits option.splits)

text \<open>
  The theorem on the fixture, with nothing cached.
\<close>

theorem getCompiledMapper_read_only_witness:
  "snd (snd (Mapper_getCompiledMapper UserDto None testWorld)) = testWorld
   \<and> snd (getCompiledMapper UserDto None testWorld) = testWorld
   \<and> fst (getCompiledMapper UserDto (Some (fst (getOptionsKey None))) testWorld) = None
   \<and> Mapper_getCompiledMapper UserDto None testWorld = (None, None, testWorld)"
  using getCompiledMapper_read_only [of UserDto None testWorld None]
  by (simp add: getCompiledMapper_def getOptionsKey_def testWorld_def)

section \<open>The options after key derivation\<close>

lemma createMapper_options:
  "fst (snd (createMapper T options s)) = snd (getOptionsKey options)"
  by (simp add: createMapper_def case_prod_beta Let_def split: option.splits)

lemma sort_short: "length xs < 2 \<Longrightarrow> sort xs = xs"
  by (cases xs; cases "tl xs") auto

lemma sortInPlace_writable:
  "\<not> frozen a \<Longrightarrow> sortInPlace a = Inr (a\<lparr>items := sort (items a)\<rparr>)"
  by (simp add: sortInPlace_def sort_short)

lemma sortInPlace_frozen:
  "frozen a \<Longrightarrow> 2 \<le> length (items a) \<Longrightarrow> sortInPlace a = Inl TypeError"
  by (simp add: sortInPlace_def)

lemma getOptionsKeyOnArrays_pick:
  assumes "pickArray opts = Some a" and "\<not> frozen a"
  shows "getOptionsKeyOnArrays (Some opts)
         = (Inr (''pick:'' @ join (sort (items a))),
            Some (opts\<lparr>pickArray := Some (a\<lparr>items := sort (items a)\<rparr>)\<rparr>))"
  using assms by (simp add: getOptionsKeyOnArrays_def sortInPlace_writable)

lemma getOptionsKeyOnArrays_omit:
  assumes "pickArray opts = None" and "omitArray opts = Some b" and "\<not> frozen b"
  shows "getOptionsKeyOnArrays (Some opts)
         = (Inr (''omit:'' @ join (sort (items b))),
            Some (opts\<lparr>omitArray := Some (b\<lparr>items := sort (items b)\<rparr>)\<rparr>))"
  using assms by (simp add: getOptionsKeyOnArrays_def sortInPlace_writable)

lemma getOptionsKeyOnArrays_frozen_pick:
  assumes "pickArray opts = Some a" and "frozen a" and "2 \<le> length (items a)"
  shows "getOptionsKeyOnArrays (Some opts) = (Inl TypeError, Some opts)"
  using assms by (simp add: getOptionsKeyOnArrays_def sortInPlace_frozen)

lemma getOptionsKeyOnArrays_frozen_omit:
  assumes "pickArray opts = None" and "omitArray opts = Some b" and "frozen b"
    and "2 \<le> length (items b)"
  shows "getOptionsKeyOnArrays (Some opts) = (Inl TypeError, Some opts)"
  using assms by (simp add: getOptionsKeyOnArrays_def sortInPlace_frozen)

lemma getOptionsKeyOnArrays_omit_beside_pick:
  assumes "pickArray opts = Some a"
  shows "map_option omitArray (snd (getOptionsKeyOnArrays (Some opts))) = Some (omitArray opts)"
  using assms by (simp add: getOptionsKeyOnArrays_def split: sum.splits)

text \<open>On arrays that can be written, the key and the options are those of \<open>getOptionsKey\<close>.\<close>

lemma getOptionsKeyOnArrays_writable:
  assumes "writable options"
  shows "fst (getOptionsKeyOnArrays options)
         = Inr (fst (getOptionsKey (map_option plainOptions options)))"
    and "map_option plainOptions (snd (getOptionsKeyOnArrays options))
         = snd (getOptionsKey (map_option plainOptions options))"
  using assms
  by (auto simp add: getOptionsKeyOnArrays_def getOptionsKey_def writable_def plainOptions_def
      sortInPlace_writable split: option.splits)

lemma createMapperOnArrays_options:
  "fst (snd (createMapperOnArrays T options s)) = snd (getOptionsKeyOnArrays options)"
  by (simp add: createMapperOnArrays_def case_prod_beta Let_def split: option.splits sum.splits)

lemma createMapperOnArrays_writable:
  assumes "writable options"
  shows "fst (createMapperOnArrays T options s)
         = Inr (fst (createMapper T (map_option plainOptions options) s))"
    and "snd (snd (createMapperOnArrays T options s))
         = snd (snd (createMapper T (map_option plainOptions options) s))"
proof -
  obtain k where k: "fst (getOptionsKeyOnArrays options) = Inr k"
    and k': "fst (getOptionsKey (map_option plainOptions options)) = k"
    using getOptionsKeyOnArrays_writable(1) [OF assms] by simp
  note o = getOptionsKeyOnArrays_writable(2) [OF assms]
  show "fst (createMapperOnArrays T options s)
         = Inr (fst (createMapper T (map_option plainOptions options) s))"
    using k k' o
    by (simp add: createMapperOnArrays_def createMapper_def case_prod_beta Let_def
        split: option.splits)
  show "snd (snd (createMapperOnArrays T options s))
         = snd (snd (createMapper T (map_option plainOptions options) s))"
    using k k' o
    by (simp add: createMapperOnArrays_def createMapper_def case_prod_beta Let_def
        split: option.splits)
qed

lemma Mapper_getCompiledMapperOnArrays_options:
  "fst (snd (Mapper_getCompiledMapperOnArrays T options s)) = snd (getOptionsKeyOnArrays options)"
  by (simp add: Mapper_getCompiledMapperOnArrays_def case_prod_beta split: sum.splits)

lemma Mapper_mapOnArrays_options:
  "\<not> isNullish src \<Longrightarrow>
   fst (snd (Mapper_mapOnArrays src T options s)) = snd (getOptionsKeyOnArrays options)"
  using createMapperOnArrays_options [of T options s]
  by (simp add: Mapper_mapOnArrays_def case_prod_beta split: sum.splits)

lemma Mapper_mapOnArrays_null:
  "isNullish src \<Longrightarrow> fst (snd (Mapper_mapOnArrays src T options s)) = options"
  by (simp add: Mapper_mapOnArrays_def)

lemma Mapper_mapArrayOnArrays_options:
  "fst (snd (Mapper_mapArrayOnArrays (IsArray srcs) T options s))
   = snd (getOptionsKeyOnArrays options)"
  using createMapperOnArrays_options [of T options s]
  by (simp add: Mapper_mapArrayOnArrays_def case_prod_beta split: sum.splits)

lemma Mapper_pickOnArrays_array:
  assumes "\<not> isNullish src" and "\<not> frozen c"
  shows "fst (snd (Mapper_pickOnArrays src T c s)) = c\<lparr>items := sort (items c)\<rparr>"
  using Mapper_mapOnArrays_options [OF assms(1), of T
      "Some \<lparr>pickArray = Some c, omitArray = None, groupField = None, extrasField = None\<rparr>" s]
    assms(2)
  by (simp add: Mapper_pickOnArrays_def case_prod_beta getOptionsKeyOnArrays_def
      sortInPlace_writable)

lemma Mapper_omitOnArrays_array:
  assumes "\<not> isNullish src" and "\<not> frozen c"
  shows "fst (snd (Mapper_omitOnArrays src T c s)) = c\<lparr>items := sort (items c)\<rparr>"
  using Mapper_mapOnArrays_options [OF assms(1), of T
      "Some \<lparr>pickArray = None, omitArray = Some c, groupField = None, extrasField = None\<rparr>" s]
    assms(2)
  by (simp add: Mapper_omitOnArrays_def case_prod_beta getOptionsKeyOnArrays_def
      sortInPlace_writable)

lemma Mapper_pickOnArrays_null:
  "isNullish src \<Longrightarrow> fst (snd (Mapper_pickOnArrays src T c s)) = c"
  by (simp add: Mapper_pickOnArrays_def Mapper_mapOnArrays_def)

lemma Mapper_omitOnArrays_null:
  "isNullish src \<Longrightarrow> fst (snd (Mapper_omitOnArrays src T c s)) = c"
  by (simp add: Mapper_omitOnArrays_def Mapper_mapOnArrays_def)

text \<open>
  C9, as amended. \<open>getOptionsKey\<close> sorts in place the array the signature is derived from,
  when that array is not frozen: the pick array when there is one, else the omit array
  when there is one. An omit array beside a pick array is left as it is, and a frozen array
  of two or more names makes the derivation raise a \<open>TypeError\<close> and is left as it is.
  After \<open>createMapper\<close>, after \<open>getCompiledMapper\<close>, after \<open>map\<close> with a source that is not
  null and after \<open>mapArray\<close> with an array, the caller's options are those the derivation
  leaves; the array passed to the shorthands \<open>pick\<close> and \<open>omit\<close> with a source that is not
  null is sorted when it is not frozen. \<open>map\<close>, \<open>pick\<close> and \<open>omit\<close> with a null source and
  \<open>mapArray\<close> with another value than an array return before the derivation and leave the
  options as they are. When no array is frozen, the key, the options, the mapper and the
  state are those of the functions on lists of names.
\<close>

theorem getOptionsKey_sorts_writable_array:
  "(pickArray opts = Some a \<and> \<not> frozen a \<longrightarrow>
      getOptionsKeyOnArrays (Some opts)
      = (Inr (''pick:'' @ join (sort (items a))),
         Some (opts\<lparr>pickArray := Some (a\<lparr>items := sort (items a)\<rparr>)\<rparr>)))
   \<and> (pickArray opts = None \<and> omitArray opts = Some b \<and> \<not> frozen b \<longrightarrow>
      getOptionsKeyOnArrays (Some opts)
      = (Inr (''omit:'' @ join (sort (items b))),
         Some (opts\<lparr>omitArray := Some (b\<lparr>items := sort (items b)\<rparr>)\<rparr>)))
   \<and> (pickArray opts = Some a \<longrightarrow>
      map_option omitArray (snd (getOptionsKeyOnArrays (Some opts))) = Some (omitArray opts))
   \<and> (pickArray opts = Some a \<and> frozen a \<and> 2 \<le> length (items a) \<longrightarrow>
      getOptionsKeyOnArrays (Some opts) = (Inl TypeError, Some opts))
   \<and> (pickArray opts = None \<and> omitArray opts = Some b \<and> frozen b \<and> 2 \<le> length (items b) \<longrightarrow>
      getOptionsKeyOnArrays (Some opts) = (Inl TypeError, Some opts))
   \<and> fst (snd (createMapperOnArrays T options s)) = snd (getOptionsKeyOnArrays options)
   \<and> fst (snd (Mapper_getCompiledMapperOnArrays T options s))
       = snd (getOptionsKeyOnArrays options)
   \<and> (\<not> isNullish src \<longrightarrow>
        fst (snd (Mapper_mapOnArrays src T options s)) = snd (getOptionsKeyOnArrays options))
   \<and> (isNullish src \<longrightarrow> fst (snd (Mapper_mapOnArrays src T options s)) = options)
   \<and> fst (snd (Mapper_mapArrayOnArrays (IsArray srcs) T options s))
       = snd (getOptionsKeyOnArrays options)
   \<and> fst (snd (Mapper_mapArrayOnArrays (NotArray v) T options s)) = options
   \<and> (\<not> isNullish src \<and> \<not> frozen c \<longrightarrow>
        fst (snd (Mapper_pickOnArrays src T c s)) = c\<lparr>items := sort (items c)\<rparr>)
   \<and> (\<not> isNullish src \<and> \<not> frozen c \<longrightarrow>
        fst (snd (Mapper_omitOnArrays src T c s)) = c\<lparr>items := sort (items c)\<rparr>)
   \<and> (isNullish src \<longrightarrow> fst (snd (Mapper_pickOnArrays src T c s)) = c)
   \<and> (isNullish src \<longrightarrow> fst (snd (Mapper_omitOnArrays src T c s)) = c)
   \<and> (writable options \<longrightarrow>
        fst (getOptionsKeyOnArrays options)
          = Inr (fst (getOptionsKey (map_option plainOptions options)))
        \<and> map_option plainOptions (snd (getOptionsKeyOnArrays options))
          = snd (getOptionsKey (map_option plainOptions options))
        \<and> fst (createMapperOnArrays T options s)
          = Inr (fst (createMapper T (map_option plainOptions options) s))
        \<and> snd (snd (createMapperOnArrays T options s))
          = snd (snd (createMapper T (map_option plainOptions options) s)))"
proof -
  have c1: "pickArray opts = Some a \<and> \<not> frozen a \<longrightarrow>
      getOptionsKeyOnArrays (Some opts)
      = (Inr (''pick:'' @ join (sort (items a))),
         Some (opts\<lparr>pickArray := Some (a\<lparr>items := sort (items a)\<rparr>)\<rparr>))"
    using getOptionsKeyOnArrays_pick [of opts a] by simp
  have c2: "pickArray opts = None \<and> omitArray opts = Some b \<and> \<not> frozen b \<longrightarrow>
      getOptionsKeyOnArrays (Some opts)
      = (Inr (''omit:'' @ join (sort (items b))),
         Some (opts\<lparr>omitArray := Some (b\<lparr>items := sort (items b)\<rparr>)\<rparr>))"
    using getOptionsKeyOnArrays_omit [of opts b] by simp
  have c3: "pickArray opts = Some a \<longrightarrow>
      map_option omitArray (snd (getOptionsKeyOnArrays (Some opts))) = Some (omitArray opts)"
    using getOptionsKeyOnArrays_omit_beside_pick [of opts a] by simp
  have c4: "pickArray opts = Some a \<and> frozen a \<and> 2 \<le> length (items a) \<longrightarrow>
      getOptionsKeyOnArrays (Some opts) = (Inl TypeError, Some opts)"
    using getOptionsKeyOnArrays_frozen_pick [of opts a] by simp
  have c5: "pickArray opts = None \<and> omitArray opts = Some b \<and> frozen b \<and> 2 \<le> length (items b)
      \<longrightarrow> getOptionsKeyOnArrays (Some opts) = (Inl TypeError, Some opts)"
    using getOptionsKeyOnArrays_frozen_omit [of opts b] by simp
  have c6: "fst (snd (createMapperOnArrays T options s)) = snd (getOptionsKeyOnArrays options)"
    by (rule createMapperOnArrays_options)
  have c7: "fst (snd (Mapper_getCompiledMapperOnArrays T options s))
       = snd (getOptionsKeyOnArrays options)"
    by (rule Mapper_getCompiledMapperOnArrays_options)
  have c8: "\<not> isNullish src \<longrightarrow>
        fst (snd (Mapper_mapOnArrays src T options s)) = snd (getOptionsKeyOnArrays options)"
    using Mapper_mapOnArrays_options [of src T options s] by simp
  have c9: "isNullish src \<longrightarrow> fst (snd (Mapper_mapOnArrays src T options s)) = options"
    using Mapper_mapOnArrays_null [of src T options s] by simp
  have c10: "fst (snd (Mapper_mapArrayOnArrays (IsArray srcs) T options s))
       = snd (getOptionsKeyOnArrays options)"
    by (rule Mapper_mapArrayOnArrays_options)
  have c11: "fst (snd (Mapper_mapArrayOnArrays (NotArray v) T options s)) = options"
    by (simp add: Mapper_mapArrayOnArrays_def)
  have c12: "\<not> isNullish src \<and> \<not> frozen c \<longrightarrow>
        fst (snd (Mapper_pickOnArrays src T c s)) = c\<lparr>items := sort (items c)\<rparr>"
    using Mapper_pickOnArrays_array [of src c T s] by simp
  have c13: "\<not> isNullish src \<and> \<not> frozen c \<longrightarrow>
        fst (snd (Mapper_omitOnArrays src T c s)) = c\<lparr>items := sort (items c)\<rparr>"
    using Mapper_omitOnArrays_array [of src c T s] by simp
  have c14: "isNullish src \<longrightarrow> fst (snd (Mapper_pickOnArrays src T c s)) = c"
    using Mapper_pickOnArrays_null [of src T c s] by simp
  have c15: "isNullish src \<longrightarrow> fst (snd (Mapper_omitOnArrays src T c s)) = c"
    using Mapper_omitOnArrays_null [of src T c s] by simp
  have c16: "writable options \<longrightarrow>
        fst (getOptionsKeyOnArrays options)
          = Inr (fst (getOptionsKey (map_option plainOptions options)))
        \<and> map_option plainOptions (snd (getOptionsKeyOnArrays options))
          = snd (getOptionsKey (map_option plainOptions options))
        \<and> fst (createMapperOnArrays T options s)
          = Inr (fst (createMapper T (map_option plainOptions options) s))
        \<and> snd (snd (createMapperOnArrays T options s))
          = snd (snd (createMapper T (map_option plainOptions options) s))"
    using getOptionsKeyOnArrays_writable [of options] createMapperOnArrays_writable [of options T s]
    by simp
  show ?thesis
    using c1 c2 c3 c4 c5 c6 c7 c8 c9 c10 c11 c12 c13 c14 c15 c16 by (intro conjI)
qed

text \<open>
  The theorem on the fixture: arrays that are not frozen come back sorted.
\<close>

theorem getOptionsKey_sorts_writable_array_witness:
  "getOptionsKeyOnArrays
      (Some \<lparr>pickArray = Some \<lparr>items = [''username'', ''avatar''], frozen = False\<rparr>,
             omitArray = None, groupField = None, extrasField = None\<rparr>)
     = (Inr ''pick:avatar,username'',
        Some \<lparr>pickArray = Some \<lparr>items = [''avatar'', ''username''], frozen = False\<rparr>,
              omitArray = None, groupField = None, extrasField = None\<rparr>)
   \<and> fst (snd (createMapperOnArrays UserDto
        (Some \<lparr>pickArray = Some \<lparr>items = [''username'', ''avatar''], frozen = False\<rparr>,
               omitArray = None, groupField = None, extrasField = None\<rparr>) testWorld))
     = Some \<lparr>pickArray = Some \<lparr>items = [''avatar'', ''username''], frozen = False\<rparr>,
             omitArray = None, groupField = None, extrasField = None\<rparr>
   \<and> fst (snd (Mapper_mapOnArrays userEntity UserDto
        (Some \<lparr>pickArray = Some \<lparr>items = [''username'', ''avatar''], frozen = False\<rparr>,
               omitArray = None, groupField = None, extrasField = None\<rparr>) testWorld))
     = Some \<lparr>pickArray = Some \<lparr>items = [''avatar'', ''username''], frozen = False\<rparr>,
             omitArray = None, groupField = None, extrasField = None\<rparr>
   \<and> fst (snd (Mapper_mapArrayOnArrays (IsArray [userEntity]) UserDto
        (Some \<lparr>pickArray = Some \<lparr>items = [''username'', ''avatar''], frozen = False\<rparr>,
               omitArray = None, groupField = None, extrasField = None\<rparr>) testWorld))
     = Some \<lparr>pickArray = Some \<lparr>items = [''avatar'', ''username''], frozen = False\<rparr>,
             omitArray = None, groupField = None, extrasField = None\<rparr>
   \<and> fst (snd (Mapper_pickOnArrays userEntity UserDto
        \<lparr>items = [''username'', ''avatar''], frozen = False\<rparr> testWorld))
     = \<lparr>items = [''avatar'', ''username''], frozen = False\<rparr>
   \<and> fst (snd (Mapper_omitOnArrays userEntity UserDto
        \<lparr>items = [''username'', ''avatar''], frozen = False\<rparr> testWorld))
     = \<lparr>items = [''avatar'', ''username''], frozen = False\<rparr>
   \<and> fst (createMapperOnArrays UserDto
        (Some \<lparr>pickArray = Some \<lparr>items = [''username'', ''avatar''], frozen = False\<rparr>,
               omitArray = None, groupField = None, extrasField = None\<rparr>) testWorld)
     = Inr (fst (createMapper UserDto (pickOpt [''username'', ''avatar'']) testWorld))"
  using getOptionsKey_sorts_writable_array
    [of "\<lparr>pickArray = Some \<lparr>items = [''username'', ''avatar''], frozen = False\<rparr>,
           omitArray = None, groupField = None, extrasField = None\<rparr>"
        "\<lparr>items = [''username'', ''avatar''], frozen = False\<rparr>"
        "\<lparr>items = [], frozen = False\<rparr>" UserDto
        "Some \<lparr>pickArray = Some \<lparr>items = [''username'', ''avatar''], frozen = False\<rparr>,
               omitArray = None, groupField = None, extrasField = None\<rparr>"
        testWorld userEntity "[userEntity]" JNull
        "\<lparr>items = [''username'', ''avatar''], frozen = False\<rparr>"]
  by (simp add: userEntity_def pickOpt_def writable_def plainOptions_def)

text \<open>
  C9 as stated fails where the derivation does not sort the array. An omit array beside a
  pick array stays in the caller's order. \<open>pick\<close> with a null source and \<open>mapArray\<close> with a
  value that is no array return before the key is derived. A frozen array of two names
  makes \<open>getOptionsKey\<close>, and so \<open>createMapper\<close>, raise a \<open>TypeError\<close>, and keeps its order.
\<close>

theorem caller_array_left_unsorted:
  "sort [''username'', ''avatar''] = [''avatar'', ''username'']
   \<and> snd (getOptionsKeyOnArrays
        (Some \<lparr>pickArray = Some \<lparr>items = [''username'', ''avatar''], frozen = False\<rparr>,
               omitArray = Some \<lparr>items = [''email'', ''avatar''], frozen = False\<rparr>,
               groupField = None, extrasField = None\<rparr>))
     = Some \<lparr>pickArray = Some \<lparr>items = [''avatar'', ''username''], frozen = False\<rparr>,
             omitArray = Some \<lparr>items = [''email'', ''avatar''], frozen = False\<rparr>,
             groupField = None, extrasField = None\<rparr>
   \<and> snd (getOptionsKey
        (Some \<lparr>pick = Some [''username'', ''avatar''], omit = Some [''email'', ''avatar''],
               group = None, optExtras = None\<rparr>))
     = Some \<lparr>pick = Some [''avatar'', ''username''], omit = Some [''email'', ''avatar''],
             group = None, optExtras = None\<rparr>
   \<and> fst (snd (Mapper_pickOnArrays JNull UserDto
        \<lparr>items = [''username'', ''avatar''], frozen = False\<rparr> testWorld))
     = \<lparr>items = [''username'', ''avatar''], frozen = False\<rparr>
   \<and> fst (snd (Mapper_pick JNull UserDto [''username'', ''avatar''] testWorld))
     = [''username'', ''avatar'']
   \<and> fst (snd (Mapper_mapArrayOnArrays (NotArray JNull) UserDto
        (Some \<lparr>pickArray = Some \<lparr>items = [''username'', ''avatar''], frozen = False\<rparr>,
               omitArray = None, groupField = None, extrasField = None\<rparr>) testWorld))
     = Some \<lparr>pickArray = Some \<lparr>items = [''username'', ''avatar''], frozen = False\<rparr>,
             omitArray = None, groupField = None, extrasField = None\<rparr>
   \<and> fst (snd (Mapper_mapArray (NotArray JNull) UserDto (pickOpt [''username'', ''avatar''])
        testWorld))
     = pickOpt [''username'', ''avatar'']
   \<and> getOptionsKeyOnArrays
        (Some \<lparr>pickArray = Some \<lparr>items = [''username'', ''avatar''], frozen = True\<rparr>,
               omitArray = None, groupField = None, extrasField = None\<rparr>)
     = (Inl TypeError,
        Some \<lparr>pickArray = Some \<lparr>items = [''username'', ''avatar''], frozen = True\<rparr>,
              omitArray = None, groupField = None, extrasField = None\<rparr>)
   \<and> fst (createMapperOnArrays UserDto
        (Some \<lparr>pickArray = Some \<lparr>items = [''username'', ''avatar''], frozen = True\<rparr>,
               omitArray = None, groupField = None, extrasField = None\<rparr>) testWorld)
     = Inl TypeError
   \<and> fst (Mapper_pickOnArrays userEntity UserDto
        \<lparr>items = [''username'', ''avatar''], frozen = True\<rparr> testWorld)
     = Inl TypeError
   \<and> fst (snd (Mapper_pickOnArrays userEntity UserDto
        \<lparr>items = [''username'', ''avatar''], frozen = True\<rparr> testWorld))
     = \<lparr>items = [''username'', ''avatar''], frozen = True\<rparr>"
  by (simp add: getOptionsKeyOnArrays_def sortInPlace_def createMapperOnArrays_def
      Mapper_pickOnArrays_def Mapper_mapOnArrays_def Mapper_mapArrayOnArrays_def
      userEntity_def fixture_defs run_defs)

section \<open>Null propagation\<close>

text \<open>
  C7. The mapper compiled for any target and options, called in any state and context on
  \<^verbatim>\<open>null\<close> or \<^verbatim>\<open>undefined\<close>, returns \<^verbatim>\<open>null\<close> and leaves the state as it was: no
  error, and no lookup or transform call is logged. \<open>Mapper.map\<close> returns \<^verbatim>\<open>null\<close> on
  such a source before it compiles anything.
\<close>

theorem null_propagation:
  "invoke (fst (createMapper T options s)) JNull ctx s' = (Inr JNull, s')
   \<and> invoke (fst (createMapper T options s)) JUndefined ctx s' = (Inr JNull, s')
   \<and> Mapper_map JNull T options s = (Inr JNull, options, s)
   \<and> Mapper_map JUndefined T options s = (Inr JNull, options, s)"
  by (simp add: invoke_def Mapper_map_def)

text \<open>
  The theorem on the fixture.
\<close>

theorem null_propagation_witness:
  "invoke (fst (createMapper UserDto None testWorld)) JNull (makeContext None testWorld)
      testWorld = (Inr JNull, testWorld)
   \<and> invoke (fst (createMapper UserDto None testWorld)) JUndefined
        (makeContext None testWorld) testWorld = (Inr JNull, testWorld)
   \<and> Mapper_map JNull UserDto None testWorld = (Inr JNull, None, testWorld)
   \<and> Mapper_map JUndefined UserDto None testWorld = (Inr JNull, None, testWorld)"
  using null_propagation [of UserDto None testWorld "makeContext None testWorld" testWorld]
  by simp

section \<open>What a call leaves of the state\<close>

lemma lookupFrame_fields:
  assumes "lookupFrame s s'"
  shows "compiledMappers s' = compiledMappers s" and "registry s' = registry s"
    and "nextFunction s' = nextFunction s" and "newInstance s' = newInstance s"
    and "propertyMappingsMetadata s' = propertyMappingsMetadata s"
    and "fieldGroupsMetadata s' = fieldGroupsMetadata s"
    and "globalContext s' = globalContext s"
proof -
  have e: "s' = s\<lparr>pathCache := pathCache s', trace := trace s'\<rparr>"
    using assms by (simp add: lookupFrame_def)
  show "compiledMappers s' = compiledMappers s" by (subst e) simp
  show "registry s' = registry s" by (subst e) simp
  show "nextFunction s' = nextFunction s" by (subst e) simp
  show "newInstance s' = newInstance s" by (subst e) simp
  show "propertyMappingsMetadata s' = propertyMappingsMetadata s" by (subst e) simp
  show "fieldGroupsMetadata s' = fieldGroupsMetadata s" by (subst e) simp
  show "globalContext s' = globalContext s" by (subst e) simp
qed

lemma applyPathMappings_frame:
  "lookupFrame s (snd (applyPathMappings ms src r s))"
proof (induction ms arbitrary: r s)
  case Nil
  then show ?case by (simp add: lookupFrame_refl)
next
  case (Cons a ms)
  obtain target p where a: "a = (target, p)" by (cases a)
  show ?case
  proof (cases p)
    case (Transform f)
    then show ?thesis using a by (simp add: lookupFrame_refl)
  next
    case (PropertyPath path)
    obtain v s1 where g: "getNestedValue src path s = (v, s1)"
      by (cases "getNestedValue src path s")
    have f1: "lookupFrame s s1"
      using getNestedValue_frame [of s src path] g by simp
    show ?thesis
    proof (cases v)
      case (Inl e)
      then show ?thesis using a PropertyPath g f1 by simp
    next
      case (Inr x)
      have "lookupFrame s1 (snd (applyPathMappings ms src (setProp r target x) s1))"
        by (rule Cons.IH)
      with f1 have "lookupFrame s (snd (applyPathMappings ms src (setProp r target x) s1))"
        by (rule lookupFrame_trans)
      then show ?thesis using a PropertyPath g Inr by simp
    qed
  qed
qed

lemma logEvent_frame: "lookupFrame s (logEvent e s)"
  by (simp add: lookupFrame_def logEvent_def)

lemma applyTransformMappings_frame:
  "lookupFrame s (snd (applyTransformMappings ms src ctx r s))"
proof (induction ms arbitrary: r s)
  case Nil
  then show ?case by (simp add: lookupFrame_refl)
next
  case (Cons a ms)
  obtain target f where a: "a = (target, f)" by (cases a)
  show ?case
  proof (cases "f src ctx")
    case (Inl e)
    then show ?thesis using a by (simp add: Let_def logEvent_frame)
  next
    case (Inr v)
    have "lookupFrame (logEvent (CallTransform target) s)
            (snd (applyTransformMappings ms src ctx (setProp r target v)
                    (logEvent (CallTransform target) s)))"
      by (rule Cons.IH)
    with logEvent_frame
    have "lookupFrame s
            (snd (applyTransformMappings ms src ctx (setProp r target v)
                    (logEvent (CallTransform target) s)))"
      by (rule lookupFrame_trans)
    then show ?thesis
      using a Inr by (simp add: Let_def)
  qed
qed

lemma invoke_frame: "lookupFrame s (snd (invoke m src ctx s))"
proof (cases "isNullish src")
  case True
  then show ?thesis by (simp add: invoke_def lookupFrame_refl)
next
  case False
  obtain r1 s1 where p: "applyPathMappings (pathMappings m) src
                (newInstance s (mapperTargetType m)) s = (r1, s1)"
    by (cases "applyPathMappings (pathMappings m) src (newInstance s (mapperTargetType m)) s")
  have f1: "lookupFrame s s1"
    using applyPathMappings_frame [of s "pathMappings m" src "newInstance s (mapperTargetType m)"] p
    by simp
  show ?thesis
  proof (cases r1)
    case (Inl e)
    then show ?thesis using False p f1 by (simp add: invoke_def)
  next
    case (Inr res)
    obtain r2 s2 where t: "applyTransformMappings (transformMappings m) src ctx res s1 = (r2, s2)"
      by (cases "applyTransformMappings (transformMappings m) src ctx res s1")
    have "lookupFrame s1 s2"
      using applyTransformMappings_frame [of s1 "transformMappings m" src ctx res] t by simp
    then have "lookupFrame s s2" using f1 by (rule lookupFrame_trans [rotated])
    then show ?thesis using False p Inr t by (cases r2) (simp_all add: invoke_def)
  qed
qed

lemma mapArrayLoop_frame: "lookupFrame s (snd (mapArrayLoop m ctx xs s))"
proof (induction xs arbitrary: s)
  case Nil
  then show ?case by (simp add: lookupFrame_refl)
next
  case (Cons x xs)
  show ?case
  proof (cases "isNullish x")
    case True
    then show ?thesis using Cons.IH [of s]
      by (cases "mapArrayLoop m ctx xs s") (auto split: sum.splits)
  next
    case False
    obtain r s1 where i: "invoke m x ctx s = (r, s1)" by (cases "invoke m x ctx s")
    have f1: "lookupFrame s s1" using invoke_frame [of s m x ctx] i by simp
    have f2: "lookupFrame s (snd (mapArrayLoop m ctx xs s1))"
      using f1 Cons.IH [of s1] by (rule lookupFrame_trans)
    show ?thesis using False i f1 f2
      by (cases r; cases "mapArrayLoop m ctx xs s1") (auto split: sum.splits)
  qed
qed

section \<open>The compiled-mapper cache only grows\<close>

lemma getEntry_compiledMappers: "compiledMappers (snd (getEntry T s)) = compiledMappers s"
  by (simp add: getEntry_def createEntryFromMetadata_def logEvent_def Let_def split: option.splits)

lemma getCompiledMapper_getEntry:
  "fst (getCompiledMapper T' k (snd (getEntry T s))) = fst (getCompiledMapper T' k s)"
  by (simp add: getCompiledMapper_def getEntry_compiledMappers Let_def split: option.splits)

lemma createMapper_hit:
  assumes "fst (getCompiledMapper T (Some (fst (getOptionsKey options))) s) = Some m"
  shows "createMapper T options s = (m, snd (getOptionsKey options), snd (getEntry T s))"
proof -
  have "getCompiledMapper T (Some (fst (getOptionsKey options))) (snd (getEntry T s))
        = (Some m, snd (getEntry T s))"
    using assms getCompiledMapper_getEntry [of T "Some (fst (getOptionsKey options))" T s]
    by (simp add: getCompiledMapper_def Let_def split: option.splits)
  then show ?thesis
    by (simp add: createMapper_def case_prod_beta)
qed

lemma createMapper_miss:
  assumes "fst (getCompiledMapper T (Some (fst (getOptionsKey options))) s) = None"
  shows "createMapper T options s =
    (fst (buildMapper T (fst (getEntry T s))
            (getPropertiesToMap (fst (getEntry T s)) (snd (getOptionsKey options)))
            (snd (getEntry T s))),
     snd (getOptionsKey options),
     setCompiledMapper T (fst (getOptionsKey options))
       (fst (buildMapper T (fst (getEntry T s))
            (getPropertiesToMap (fst (getEntry T s)) (snd (getOptionsKey options)))
            (snd (getEntry T s))))
       (snd (buildMapper T (fst (getEntry T s))
            (getPropertiesToMap (fst (getEntry T s)) (snd (getOptionsKey options)))
            (snd (getEntry T s)))))"
proof -
  have "getCompiledMapper T (Some (fst (getOptionsKey options))) (snd (getEntry T s))
        = (None, snd (getEntry T s))"
    using assms getCompiledMapper_getEntry [of T "Some (fst (getOptionsKey options))" T s]
    by (simp add: getCompiledMapper_def Let_def split: option.splits)
  then show ?thesis
    by (simp add: createMapper_def case_prod_beta Let_def)
qed

lemma buildMapper_compiledMappers:
  "compiledMappers (snd (buildMapper T e ps s)) = compiledMappers s"
  by (simp add: buildMapper_def case_prod_beta)

lemma getCompiledMapper_set:
  "fst (getCompiledMapper T' (Some k') (setCompiledMapper T k m s)) =
     (if T' = T \<and> k' = k then Some m else fst (getCompiledMapper T' (Some k') s))"
  by (auto simp add: getCompiledMapper_def setCompiledMapper_def Let_def split: option.splits)

lemma getCompiledMapper_cong:
  "compiledMappers s' = compiledMappers s \<Longrightarrow>
   fst (getCompiledMapper T k s') = fst (getCompiledMapper T k s)"
  by (simp add: getCompiledMapper_def Let_def split: option.splits)

lemma createMapper_stores:
  "fst (getCompiledMapper T (Some (fst (getOptionsKey options)))
          (snd (snd (createMapper T options s)))) = Some (fst (createMapper T options s))"
proof (cases "fst (getCompiledMapper T (Some (fst (getOptionsKey options))) s)")
  case None
  show ?thesis
    by (simp add: createMapper_miss [OF None] getCompiledMapper_set)
next
  case (Some m)
  show ?thesis
    using Some by (simp add: createMapper_hit [OF Some] getCompiledMapper_getEntry)
qed

lemma createMapper_keeps:
  assumes "fst (getCompiledMapper T' (Some k) s) = Some m"
  shows "fst (getCompiledMapper T' (Some k) (snd (snd (createMapper T options s)))) = Some m"
proof (cases "fst (getCompiledMapper T (Some (fst (getOptionsKey options))) s)")
  case None
  have ne: "\<not> (T' = T \<and> k = fst (getOptionsKey options))"
    using None assms by auto
  have "fst (getCompiledMapper T' (Some k)
               (snd (buildMapper T (fst (getEntry T s))
                  (getPropertiesToMap (fst (getEntry T s)) (snd (getOptionsKey options)))
                  (snd (getEntry T s))))) = Some m"
    using assms
    by (simp add: getCompiledMapper_cong [OF buildMapper_compiledMappers]
        getCompiledMapper_getEntry)
  then show ?thesis
    using ne by (auto simp add: createMapper_miss [OF None] getCompiledMapper_set)
next
  case (Some m')
  show ?thesis
    using assms by (simp add: createMapper_hit [OF Some] getCompiledMapper_getEntry)
qed

lemma getCompiledMapper_state: "snd (getCompiledMapper T k s) = s"
  by (simp add: getCompiledMapper_def Let_def split: option.splits)

lemma Mapper_getCompiledMapper_state: "snd (snd (Mapper_getCompiledMapper T options s)) = s"
  by (simp add: Mapper_getCompiledMapper_def case_prod_beta getCompiledMapper_state)

lemma Mapper_map_keeps:
  assumes "fst (getCompiledMapper T' (Some k) s) = Some m"
  shows "fst (getCompiledMapper T' (Some k) (snd (snd (Mapper_map src T options s)))) = Some m"
proof (cases "isNullish src")
  case True
  then show ?thesis using assms by (simp add: Mapper_map_def)
next
  case False
  let ?c = "createMapper T options s"
  have "compiledMappers (snd (invoke (fst ?c) src (makeContext (fst (snd ?c)) (snd (snd ?c)))
            (snd (snd ?c)))) = compiledMappers (snd (snd ?c))"
    using invoke_frame by (rule lookupFrame_fields(1))
  then have "fst (getCompiledMapper T' (Some k)
                (snd (invoke (fst ?c) src (makeContext (fst (snd ?c)) (snd (snd ?c)))
                   (snd (snd ?c))))) = fst (getCompiledMapper T' (Some k) (snd (snd ?c)))"
    by (rule getCompiledMapper_cong)
  then show ?thesis
    using False createMapper_keeps [OF assms, of T options]
    by (simp add: Mapper_map_def case_prod_beta)
qed

lemma Mapper_mapArray_keeps:
  assumes "fst (getCompiledMapper T' (Some k) s) = Some m"
  shows "fst (getCompiledMapper T' (Some k) (snd (snd (Mapper_mapArray srcs T options s)))) = Some m"
proof (cases srcs)
  case (NotArray v)
  then show ?thesis using assms by (simp add: Mapper_mapArray_def)
next
  case (IsArray xs)
  let ?c = "createMapper T options s"
  have "compiledMappers (snd (mapArrayLoop (fst ?c) (makeContext (fst (snd ?c)) (snd (snd ?c))) xs
            (snd (snd ?c)))) = compiledMappers (snd (snd ?c))"
    using mapArrayLoop_frame by (rule lookupFrame_fields(1))
  then have "fst (getCompiledMapper T' (Some k)
                (snd (mapArrayLoop (fst ?c) (makeContext (fst (snd ?c)) (snd (snd ?c))) xs
                   (snd (snd ?c))))) = fst (getCompiledMapper T' (Some k) (snd (snd ?c)))"
    by (rule getCompiledMapper_cong)
  then show ?thesis
    using IsArray createMapper_keeps [OF assms, of T options]
    by (simp add: Mapper_mapArray_def case_prod_beta)
qed

lemma exec_keeps:
  assumes "fst (getCompiledMapper T' (Some k) s) = Some m"
  shows "fst (getCompiledMapper T' (Some k) (exec c s)) = Some m"
proof (cases c)
  case (CreateMapper T options)
  then show ?thesis using createMapper_keeps [OF assms] by simp
next
  case (Map src T options)
  then show ?thesis using Mapper_map_keeps [OF assms] by simp
next
  case (MapArray srcs T options)
  then show ?thesis using Mapper_mapArray_keeps [OF assms] by simp
next
  case (GetCompiledMapper T options)
  then show ?thesis using assms
    by (simp add: Mapper_getCompiledMapper_state)
next
  case ClearCache
  have "compiledMappers (clearCache s) = compiledMappers s"
    by (simp add: clearCache_def)
  then have "fst (getCompiledMapper T' (Some k) (clearCache s))
             = fst (getCompiledMapper T' (Some k) s)"
    by (rule getCompiledMapper_cong)
  then show ?thesis using assms ClearCache
    by (simp add: Mapper_clearCache_def)
qed

lemma execAll_keeps:
  "fst (getCompiledMapper T' (Some k) s) = Some m \<Longrightarrow>
   fst (getCompiledMapper T' (Some k) (execAll calls s)) = Some m"
proof (induction calls arbitrary: s)
  case Nil
  then show ?case by (simp add: execAll_def)
next
  case (Cons c calls)
  have "fst (getCompiledMapper T' (Some k) (exec c s)) = Some m"
    using Cons.prems by (rule exec_keeps)
  then have "fst (getCompiledMapper T' (Some k) (execAll calls (exec c s))) = Some m"
    by (rule Cons.IH)
  then show ?case by (simp add: execAll_def)
qed

section \<open>Cache identity\<close>

lemma sort_mset_eq: "mset xs = mset ys \<Longrightarrow> sort xs = sort (ys :: string list)"
  by (metis mset_sort sorted_sort properties_for_sort)

lemma createMapper_again:
  assumes "fst (getOptionsKey opt1) = fst (getOptionsKey opt2)"
  shows "fst (createMapper T opt2 (execAll calls (snd (snd (createMapper T opt1 s)))))
         = fst (createMapper T opt1 s)"
proof -
  have "fst (getCompiledMapper T (Some (fst (getOptionsKey opt2)))
               (snd (snd (createMapper T opt1 s)))) = Some (fst (createMapper T opt1 s))"
    using createMapper_stores [of T opt1 s] assms by simp
  then have "fst (getCompiledMapper T (Some (fst (getOptionsKey opt2)))
               (execAll calls (snd (snd (createMapper T opt1 s)))))
             = Some (fst (createMapper T opt1 s))"
    by (rule execAll_keeps)
  then show ?thesis
    by (simp add: createMapper_hit)
qed

text \<open>
  C1. Two calls of \<open>createMapper\<close> for the same target whose options derive the same
  signature return the same function object, whatever calls of the interface come between
  them (a \<open>clearCache\<close> included). Two calls without options do, and so do two calls whose
  pick lists, or omit lists, differ in their order only.
\<close>

theorem cache_identity:
  "(fst (getOptionsKey opt1) = fst (getOptionsKey opt2) \<longrightarrow>
      fst (createMapper T opt2 (execAll calls (snd (snd (createMapper T opt1 s)))))
      = fst (createMapper T opt1 s))
   \<and> fst (createMapper T None (execAll calls (snd (snd (createMapper T None s)))))
      = fst (createMapper T None s)
   \<and> (mset xs = mset ys \<longrightarrow>
      fst (createMapper T (Some (opts\<lparr>pick := Some ys\<rparr>))
             (execAll calls (snd (snd (createMapper T (Some (opts\<lparr>pick := Some xs\<rparr>)) s)))))
      = fst (createMapper T (Some (opts\<lparr>pick := Some xs\<rparr>)) s))
   \<and> (mset xs = mset ys \<longrightarrow>
      fst (createMapper T (Some (opts\<lparr>pick := None, omit := Some ys\<rparr>))
             (execAll calls
                (snd (snd (createMapper T (Some (opts\<lparr>pick := None, omit := Some xs\<rparr>)) s)))))
      = fst (createMapper T (Some (opts\<lparr>pick := None, omit := Some xs\<rparr>)) s))"
proof -
  have p: "mset xs = mset ys \<Longrightarrow>
      fst (getOptionsKey (Some (opts\<lparr>pick := Some xs\<rparr>)))
      = fst (getOptionsKey (Some (opts\<lparr>pick := Some ys\<rparr>)))"
    by (simp add: getOptionsKey_def sort_mset_eq [of xs ys])
  have q: "mset xs = mset ys \<Longrightarrow>
      fst (getOptionsKey (Some (opts\<lparr>pick := None, omit := Some xs\<rparr>)))
      = fst (getOptionsKey (Some (opts\<lparr>pick := None, omit := Some ys\<rparr>)))"
    by (simp add: getOptionsKey_def sort_mset_eq [of xs ys])
  show ?thesis
    using createMapper_again [of opt1 opt2 T calls s] createMapper_again [of None None T calls s]
      createMapper_again [OF p, of T calls s] createMapper_again [OF q, of T calls s]
    by blast
qed

text \<open>
  The theorem on the fixture: two orders of the same pick list, with a \<open>clearCache\<close> and a
  \<open>map\<close> between the two compiles.
\<close>

theorem cache_identity_witness:
  "fst (getOptionsKey (pickOpt [''username'', ''avatar''])) =
     fst (getOptionsKey (pickOpt [''avatar'', ''username'']))
   \<and> fst (createMapper UserDto (pickOpt [''avatar'', ''username''])
            (execAll [ClearCache, Map userEntity UserDto None]
              (snd (snd (createMapper UserDto (pickOpt [''username'', ''avatar'']) testWorld)))))
      = fst (createMapper UserDto (pickOpt [''username'', ''avatar'']) testWorld)
   \<and> fid (fst (createMapper UserDto (pickOpt [''username'', ''avatar'']) testWorld)) = 0
   \<and> mset [''username'', ''avatar''] = mset [''avatar'', ''username'']"
proof -
  have k: "fst (getOptionsKey (pickOpt [''username'', ''avatar''])) =
     fst (getOptionsKey (pickOpt [''avatar'', ''username'']))"
    by (simp add: getOptionsKey_def pickOpt_def)
  have f: "fid (fst (createMapper UserDto (pickOpt [''username'', ''avatar'']) testWorld)) = 0"
    by (simp add: fixture_defs run_defs)
  show ?thesis
    using k f cache_identity [of "pickOpt [''username'', ''avatar'']"
        "pickOpt [''avatar'', ''username'']" UserDto "[ClearCache, Map userEntity UserDto None]"
        testWorld]
    by simp
qed

section \<open>Cache invalidation\<close>

text \<open>
  C2, at the failing input: compile for \<open>UserDto\<close> without options, then \<open>clearCache\<close>.
  The registry of entries is empty afterwards and the next compile reads the metadata
  again, but the mapper is still found under its signature, and the next compile returns
  that same function object and builds nothing.
\<close>

theorem clearCache_keeps_compiled_mappers:
  "fst (getCompiledMapper UserDto (Some ''default'')
          (clearCache (snd (snd (createMapper UserDto None testWorld)))))
     = Some (fst (createMapper UserDto None testWorld))
   \<and> fid (fst (createMapper UserDto None
                  (clearCache (snd (snd (createMapper UserDto None testWorld))))))
     = fid (fst (createMapper UserDto None testWorld))
   \<and> nextFunction (snd (snd (createMapper UserDto None
                  (clearCache (snd (snd (createMapper UserDto None testWorld)))))))
     = nextFunction (snd (snd (createMapper UserDto None testWorld)))
   \<and> registry (clearCache (snd (snd (createMapper UserDto None testWorld)))) = Map.empty
   \<and> trace (snd (snd (createMapper UserDto None
                  (clearCache (snd (snd (createMapper UserDto None testWorld)))))))
     = [GetMetadata PROPERTY_MAPPINGS UserDto, GetMetadata FIELD_GROUPS UserDto,
        GetMetadata PROPERTY_MAPPINGS UserDto, GetMetadata FIELD_GROUPS UserDto]"
  by (simp add: fixture_defs run_defs)

section \<open>Precedence of the projection modes\<close>

text \<open>
  C3, at the failing input: options with both \<open>group = minimal\<close> and \<open>pick = [email]\<close> for
  \<open>UserWithGroupsDto\<close>. \<open>getPropertiesToMap\<close> honours the group, but \<open>getOptionsKey\<close>
  derives the signature of the pick. After a compile with the pick alone, the call with
  both modes gets the cached mapper of the pick and maps \<open>email\<close>; and after a compile with
  both modes, the call with the pick alone gets the mapper of the group.
\<close>

theorem precedence_broken_by_cache_key:
  "map targetKey
     (getPropertiesToMap (fst (getEntry UserWithGroupsDto testWorld))
        (groupAndPickOpt ''minimal'' [''email''])) = [''username'', ''avatar'']
   \<and> fst (getOptionsKey (groupAndPickOpt ''minimal'' [''email''])) = ''pick:email''
   \<and> map fst (pathMappings
        (fst (createMapper UserWithGroupsDto (groupAndPickOpt ''minimal'' [''email''])
               (snd (snd (createMapper UserWithGroupsDto (pickOpt [''email'']) testWorld))))))
      = [''email'']
   \<and> fst (Mapper_map userEntity UserWithGroupsDto (groupAndPickOpt ''minimal'' [''email''])
             (snd (snd (createMapper UserWithGroupsDto (pickOpt [''email'']) testWorld))))
      = Inr (JObj [(''email'', Data (JStr ''john@example.com''))])
   \<and> fst (Mapper_map userEntity UserWithGroupsDto (pickOpt [''email''])
             (snd (snd (createMapper UserWithGroupsDto (groupAndPickOpt ''minimal'' [''email''])
                          testWorld))))
      = Inr (JObj [(''username'', Data (JStr ''john_doe'')),
                   (''avatar'', Data (JStr ''https://example.com/avatar.jpg''))])"
  by (simp add: fixture_defs run_defs groupAndPickOpt_def)

section \<open>The value of a mapper call does not depend on the caches\<close>

lemma getNestedValue_run:
  assumes "pathCacheOk s"
  shows "\<exists>r evs pc. getNestedValue obj path s
            = (r, s\<lparr>pathCache := pc, trace := trace s @ PathLookup path # evs\<rparr>)
          \<and> (pc = pathCache s \<or> pc = (pathCache s)(path \<mapsto> splitPath path))
          \<and> (\<forall>s'. pathCacheOk s' \<longrightarrow> fst (getNestedValue obj path s') = r)"
proof -
  obtain rw evw where W: "\<forall>S. walkSegments (splitPath path) obj S = (rw, S\<lparr>trace := trace S @ evw\<rparr>)"
    using walkSegments_run [of "splitPath path" obj] by blast
  obtain rg evg where G: "\<forall>S. getProp obj path S = (rg, S\<lparr>trace := trace S @ evg\<rparr>)"
    using getProp_run [of obj path] by blast
  have c: "\<And>S segs. pathCacheOk S \<Longrightarrow> pathCache S path = Some segs \<Longrightarrow> segs = splitPath path"
    by (simp add: pathCacheOk_def)
  show ?thesis
  proof (cases "isNullish obj")
    case True
    have "getNestedValue obj path s
            = (Inr JUndefined, s\<lparr>pathCache := pathCache s, trace := trace s @ PathLookup path # []\<rparr>)"
      using True by (simp add: getNestedValue_def Let_def logEvent_def)
    moreover have "\<forall>s'. pathCacheOk s' \<longrightarrow> fst (getNestedValue obj path s') = Inr JUndefined"
      using True by (simp add: getNestedValue_def Let_def)
    ultimately show ?thesis by blast
  next
    case nn: False
    show ?thesis
    proof (cases "CHR ''.'' \<in> set path")
      case False
      show ?thesis
      proof (cases "path \<in> BLOCKED_KEYS")
        case True
        have "getNestedValue obj path s
            = (Inr JUndefined, s\<lparr>pathCache := pathCache s, trace := trace s @ PathLookup path # []\<rparr>)"
          using nn False True by (simp add: getNestedValue_def Let_def logEvent_def)
        moreover have "\<forall>s'. pathCacheOk s' \<longrightarrow> fst (getNestedValue obj path s') = Inr JUndefined"
          using nn False True by (simp add: getNestedValue_def Let_def)
        ultimately show ?thesis by blast
      next
        case nb: False
        have "getNestedValue obj path s
            = (rg, s\<lparr>pathCache := pathCache s, trace := trace s @ PathLookup path # evg\<rparr>)"
          using nn False nb G by (simp add: getNestedValue_def Let_def logEvent_def)
        moreover have "\<forall>s'. pathCacheOk s' \<longrightarrow> fst (getNestedValue obj path s') = rg"
          using nn False nb G by (simp add: getNestedValue_def Let_def)
        ultimately show ?thesis by blast
      qed
    next
      case True
      have v: "\<forall>s'. pathCacheOk s' \<longrightarrow> fst (getNestedValue obj path s') = rw"
      proof (intro allI impI)
        fix s' assume ok: "pathCacheOk s'"
        show "fst (getNestedValue obj path s') = rw"
        proof (cases "pathCache s' path")
          case None
          then show ?thesis
            using nn True W by (simp add: getNestedValue_def Let_def logEvent_def)
        next
          case (Some segs)
          then have "segs = splitPath path"
            using ok c by blast
          then show ?thesis
            using nn True W Some by (simp add: getNestedValue_def Let_def logEvent_def)
        qed
      qed
      show ?thesis
      proof (cases "pathCache s path")
        case None
        have "getNestedValue obj path s
            = (rw, s\<lparr>pathCache := (pathCache s)(path \<mapsto> splitPath path),
                      trace := trace s @ PathLookup path # evw\<rparr>)"
          using nn True W None by (simp add: getNestedValue_def Let_def logEvent_def)
        then show ?thesis using v by blast
      next
        case (Some segs)
        then have "segs = splitPath path"
          using assms c by blast
        then have "getNestedValue obj path s
            = (rw, s\<lparr>pathCache := pathCache s, trace := trace s @ PathLookup path # evw\<rparr>)"
          using nn True W Some by (simp add: getNestedValue_def Let_def logEvent_def)
        then show ?thesis using v by blast
      qed
    qed
  qed
qed

lemma getNestedValue_indep:
  assumes "pathCacheOk s" and "pathCacheOk s'"
  shows "fst (getNestedValue obj path s) = fst (getNestedValue obj path s')"
proof -
  obtain r where "\<forall>s'. pathCacheOk s' \<longrightarrow> fst (getNestedValue obj path s') = r"
    using getNestedValue_run [OF assms(1), of obj path] by blast
  then show ?thesis
    using assms by simp
qed

lemma getNestedValue_ok:
  assumes "pathCacheOk s"
  shows "pathCacheOk (snd (getNestedValue obj path s))"
proof -
  obtain r evs pc where g: "getNestedValue obj path s
            = (r, s\<lparr>pathCache := pc, trace := trace s @ PathLookup path # evs\<rparr>)"
    and pc: "pc = pathCache s \<or> pc = (pathCache s)(path \<mapsto> splitPath path)"
    using getNestedValue_run [OF assms, of obj path] by blast
  show ?thesis
    using assms pc by (auto simp add: g pathCacheOk_def split: if_splits)
qed

lemma applyPathMappings_ok:
  "pathCacheOk s \<Longrightarrow> pathCacheOk (snd (applyPathMappings ms src r s))"
proof (induction ms arbitrary: r s)
  case Nil
  then show ?case by simp
next
  case (Cons a ms)
  obtain target p where a: "a = (target, p)" by (cases a)
  show ?case
  proof (cases p)
    case (Transform f)
    then show ?thesis using a Cons.prems by simp
  next
    case (PropertyPath path)
    obtain v s1 where g: "getNestedValue src path s = (v, s1)"
      by (cases "getNestedValue src path s")
    have o: "pathCacheOk s1"
      using getNestedValue_ok [OF Cons.prems, of src path] g by simp
    show ?thesis
    proof (cases v)
      case (Inl e)
      then show ?thesis using a PropertyPath g o by simp
    next
      case (Inr x)
      have "pathCacheOk (snd (applyPathMappings ms src (setProp r target x) s1))"
        using o by (rule Cons.IH)
      then show ?thesis using a PropertyPath g Inr by simp
    qed
  qed
qed



lemma applyTransformMappings_pathCache:
  "pathCache (snd (applyTransformMappings ms src ctx r s)) = pathCache s"
proof (induction ms arbitrary: r s)
  case Nil
  then show ?case by simp
next
  case (Cons a ms)
  obtain target f where a: "a = (target, f)" by (cases a)
  show ?case
  proof (cases "f src ctx")
    case (Inl e)
    then show ?thesis using a by (simp add: Let_def logEvent_def)
  next
    case (Inr v)
    then show ?thesis
      using a Cons.IH [of "setProp r target v" "logEvent (CallTransform target) s"]
      by (simp add: Let_def logEvent_def)
  qed
qed

lemma pathCacheOk_cong: "pathCache s' = pathCache s \<Longrightarrow> pathCacheOk s' = pathCacheOk s"
  by (simp add: pathCacheOk_def)

lemma invoke_ok:
  assumes "pathCacheOk s"
  shows "pathCacheOk (snd (invoke m src ctx s))"
proof (cases "isNullish src")
  case True
  then show ?thesis using assms by (simp add: invoke_def)
next
  case False
  obtain r1 s1 where p: "applyPathMappings (pathMappings m) src
                (newInstance s (mapperTargetType m)) s = (r1, s1)"
    by (cases "applyPathMappings (pathMappings m) src (newInstance s (mapperTargetType m)) s")
  have o1: "pathCacheOk s1"
    using applyPathMappings_ok [OF assms, of "pathMappings m" src
        "newInstance s (mapperTargetType m)"] p by simp
  show ?thesis
  proof (cases r1)
    case (Inl e)
    then show ?thesis using False p o1 by (simp add: invoke_def)
  next
    case (Inr res)
    obtain r2 s2 where t: "applyTransformMappings (transformMappings m) src ctx res s1 = (r2, s2)"
      by (cases "applyTransformMappings (transformMappings m) src ctx res s1")
    have "pathCache s2 = pathCache s1"
      using applyTransformMappings_pathCache [of "transformMappings m" src ctx res s1] t by simp
    then have "pathCacheOk s2 = pathCacheOk s1"
      by (rule pathCacheOk_cong)
    then have "pathCacheOk s2"
      using o1 by simp
    then show ?thesis
      using False p Inr t by (cases r2) (simp_all add: invoke_def)
  qed
qed



section \<open>Array mapping\<close>



lemma createMapper_pathCache: "pathCache (snd (snd (createMapper T options s))) = pathCache s"
  by (simp add: createMapper_def getEntry_def createEntryFromMetadata_def logEvent_def
      getCompiledMapper_def setCompiledMapper_def buildMapper_def case_prod_beta Let_def
      split: option.splits)

lemma createMapper_newInstance: "newInstance (snd (snd (createMapper T options s))) = newInstance s"
  by (simp add: createMapper_def getEntry_def createEntryFromMetadata_def logEvent_def
      getCompiledMapper_def setCompiledMapper_def buildMapper_def case_prod_beta Let_def
      split: option.splits)



section \<open>Every cached mapper was compiled from the metadata\<close>

lemma entryOf_eq:
  "entryOf s T =
     \<lparr>targetType = T,
      propertyConfigs = (case propertyMappingsMetadata s T of Some m \<Rightarrow> m | None \<Rightarrow> []),
      fieldGroups = (case fieldGroupsMetadata s T of Some g \<Rightarrow> g | None \<Rightarrow> Map.empty)\<rparr>"
  by (simp add: entryOf_def createEntryFromMetadata_def logEvent_def Let_def)

lemma entryOf_cong:
  "propertyMappingsMetadata s' = propertyMappingsMetadata s \<Longrightarrow>
   fieldGroupsMetadata s' = fieldGroupsMetadata s \<Longrightarrow> entryOf s' = entryOf s"
  by (rule ext) (simp add: entryOf_eq)

lemma cacheSound_cong:
  assumes "propertyMappingsMetadata s' = propertyMappingsMetadata s"
    and "fieldGroupsMetadata s' = fieldGroupsMetadata s"
    and "registry s' = registry s"
    and "compiledMappers s' = compiledMappers s"
  shows "cacheSound s' = cacheSound s"
proof -
  have e: "entryOf s' = entryOf s"
    using assms(1,2) by (rule entryOf_cong)
  have g: "\<And>T k. fst (getCompiledMapper T k s') = fst (getCompiledMapper T k s)"
    using assms(4) by (rule getCompiledMapper_cong)
  show ?thesis
    by (simp add: cacheSound_def compiledFrom_def e g assms(3))
qed

lemma lookupFrame_cacheSound:
  assumes "lookupFrame s s'"
  shows "cacheSound s' = cacheSound s"
  using lookupFrame_fields(5) [OF assms] lookupFrame_fields(6) [OF assms]
    lookupFrame_fields(2) [OF assms] lookupFrame_fields(1) [OF assms]
  by (rule cacheSound_cong)

lemma getEntry_fields:
  "propertyMappingsMetadata (snd (getEntry T s)) = propertyMappingsMetadata s"
  "fieldGroupsMetadata (snd (getEntry T s)) = fieldGroupsMetadata s"
  "registry (snd (getEntry T s)) =
     (case registry s T of Some e \<Rightarrow> registry s | None \<Rightarrow> (registry s)(T \<mapsto> entryOf s T))"
  by (simp_all add: getEntry_def entryOf_def createEntryFromMetadata_def logEvent_def Let_def
      split: option.splits)

lemma getEntry_entry:
  assumes "cacheSound s"
  shows "fst (getEntry T s) = entryOf s T"
proof (cases "registry s T")
  case None
  then show ?thesis
    by (simp add: getEntry_def entryOf_def case_prod_beta)
next
  case (Some e)
  then have "e = entryOf s T"
    using assms by (simp add: cacheSound_def)
  then show ?thesis
    using Some by (simp add: getEntry_def)
qed

lemma getEntry_sound:
  assumes "cacheSound s"
  shows "cacheSound (snd (getEntry T s))"
proof -
  let ?s1 = "snd (getEntry T s)"
  have e: "entryOf ?s1 = entryOf s"
    using getEntry_fields(1) getEntry_fields(2) by (rule entryOf_cong)
  have g: "\<And>T' k. fst (getCompiledMapper T' k ?s1) = fst (getCompiledMapper T' k s)"
    by (rule getCompiledMapper_getEntry)
  have r: "\<And>T' entry. registry ?s1 T' = Some entry \<Longrightarrow> entry = entryOf s T'"
    using assms by (auto simp add: getEntry_fields(3) cacheSound_def split: option.splits if_splits)
  show ?thesis
    using assms r by (simp add: cacheSound_def compiledFrom_def e g)
qed

lemma buildMapper_fields:
  "propertyMappingsMetadata (snd (buildMapper T e ps s)) = propertyMappingsMetadata s"
  "fieldGroupsMetadata (snd (buildMapper T e ps s)) = fieldGroupsMetadata s"
  "registry (snd (buildMapper T e ps s)) = registry s"
  "mapperTargetType (fst (buildMapper T e ps s)) = T"
  "(pathMappings (fst (buildMapper T e ps s)), transformMappings (fst (buildMapper T e ps s)))
     = fold addMapping ps ([], [])"
  by (simp_all add: buildMapper_def case_prod_beta)

lemma setCompiledMapper_fields:
  "propertyMappingsMetadata (setCompiledMapper T k m s) = propertyMappingsMetadata s"
  "fieldGroupsMetadata (setCompiledMapper T k m s) = fieldGroupsMetadata s"
  "registry (setCompiledMapper T k m s) = registry s"
  by (simp_all add: setCompiledMapper_def Let_def)

lemma buildMapper_sound:
  assumes "cacheSound s"
  shows "cacheSound (snd (buildMapper T e ps s))"
proof -
  have "cacheSound (snd (buildMapper T e ps s)) = cacheSound s"
    using buildMapper_fields(1) buildMapper_fields(2) buildMapper_fields(3)
      buildMapper_compiledMappers
    by (rule cacheSound_cong)
  then show ?thesis using assms by simp
qed

lemma setCompiledMapper_sound:
  assumes "cacheSound s" and "compiledFrom s T k m"
  shows "cacheSound (setCompiledMapper T k m s)"
proof -
  let ?s' = "setCompiledMapper T k m s"
  have e: "entryOf ?s' = entryOf s"
    using setCompiledMapper_fields(1) setCompiledMapper_fields(2) by (rule entryOf_cong)
  show ?thesis
    using assms
    by (auto simp add: cacheSound_def compiledFrom_def e getCompiledMapper_set
        setCompiledMapper_fields(3))
qed

lemma createMapper_sound:
  assumes "cacheSound s"
  shows "cacheSound (snd (snd (createMapper T options s)))"
proof (cases "fst (getCompiledMapper T (Some (fst (getOptionsKey options))) s)")
  case (Some m)
  show ?thesis
    using getEntry_sound [OF assms, of T] by (simp add: createMapper_hit [OF Some])
next
  case None
  let ?e = "fst (getEntry T s)"
  let ?s1 = "snd (getEntry T s)"
  let ?ps = "getPropertiesToMap ?e (snd (getOptionsKey options))"
  let ?m = "fst (buildMapper T ?e ?ps ?s1)"
  let ?s3 = "snd (buildMapper T ?e ?ps ?s1)"
  have s3: "cacheSound ?s3"
    using getEntry_sound [OF assms, of T] by (rule buildMapper_sound)
  have "entryOf ?s3 = entryOf ?s1"
    using buildMapper_fields(1) buildMapper_fields(2) by (rule entryOf_cong)
  moreover have "entryOf ?s1 = entryOf s"
    using getEntry_fields(1) getEntry_fields(2) by (rule entryOf_cong)
  ultimately have e: "entryOf ?s3 T = ?e"
    using getEntry_entry [OF assms, of T] by simp
  have "compiledFrom ?s3 T (fst (getOptionsKey options)) ?m"
    unfolding compiledFrom_def
    by (rule exI [of _ options]) (simp add: e buildMapper_fields(4) buildMapper_fields(5))
  then have "cacheSound (setCompiledMapper T (fst (getOptionsKey options)) ?m ?s3)"
    using s3 by (rule setCompiledMapper_sound [rotated])
  then show ?thesis
    by (simp add: createMapper_miss [OF None])
qed

lemma exec_sound:
  assumes "cacheSound s"
  shows "cacheSound (exec c s)"
proof (cases c)
  case (CreateMapper T options)
  then show ?thesis using createMapper_sound [OF assms] by simp
next
  case (Map src T options)
  show ?thesis
  proof (cases "isNullish src")
    case True
    then show ?thesis using Map assms by (simp add: Mapper_map_def)
  next
    case False
    let ?c = "createMapper T options s"
    have "cacheSound (snd (invoke (fst ?c) src (makeContext (fst (snd ?c)) (snd (snd ?c)))
              (snd (snd ?c)))) = cacheSound (snd (snd ?c))"
      using invoke_frame by (rule lookupFrame_cacheSound)
    then show ?thesis
      using Map False createMapper_sound [OF assms, of T options]
      by (simp add: Mapper_map_def case_prod_beta)
  qed
next
  case (MapArray srcs T options)
  show ?thesis
  proof (cases srcs)
    case (NotArray v)
    then show ?thesis using MapArray assms by (simp add: Mapper_mapArray_def)
  next
    case (IsArray xs)
    let ?c = "createMapper T options s"
    have "cacheSound (snd (mapArrayLoop (fst ?c) (makeContext (fst (snd ?c)) (snd (snd ?c))) xs
              (snd (snd ?c)))) = cacheSound (snd (snd ?c))"
      using mapArrayLoop_frame by (rule lookupFrame_cacheSound)
    then show ?thesis
      using MapArray IsArray createMapper_sound [OF assms, of T options]
      by (simp add: Mapper_mapArray_def case_prod_beta)
  qed
next
  case (GetCompiledMapper T options)
  then show ?thesis using assms by (simp add: Mapper_getCompiledMapper_state)
next
  case ClearCache
  have e: "entryOf (clearCache s) = entryOf s"
    by (rule entryOf_cong) (simp_all add: clearCache_def)
  have "compiledMappers (clearCache s) = compiledMappers s"
    by (simp add: clearCache_def)
  then have g: "\<And>T k. fst (getCompiledMapper T k (clearCache s)) = fst (getCompiledMapper T k s)"
    by (rule getCompiledMapper_cong)
  have "cacheSound (clearCache s)"
    using assms by (simp add: cacheSound_def compiledFrom_def e g) (simp add: clearCache_def)
  then show ?thesis using ClearCache by (simp add: Mapper_clearCache_def)
qed

lemma execAll_sound: "cacheSound s \<Longrightarrow> cacheSound (execAll calls s)"
proof (induction calls arbitrary: s)
  case Nil
  then show ?case by (simp add: execAll_def)
next
  case (Cons c calls)
  have "cacheSound (exec c s)"
    using Cons.prems by (rule exec_sound)
  then have "cacheSound (execAll calls (exec c s))"
    by (rule Cons.IH)
  then show ?case by (simp add: execAll_def)
qed

lemma cacheSound_empty:
  "registry s = Map.empty \<Longrightarrow> compiledMappers s = Map.empty \<Longrightarrow> cacheSound s"
  by (simp add: cacheSound_def getCompiledMapper_def)

section \<open>Unknown groups\<close>

lemma groupKey_options:
  assumes "fst (getOptionsKey options) = ''group:'' @ name"
  shows "\<exists>opts. options = Some opts \<and> pick opts = None \<and> omit opts = None
           \<and> group opts = Some name \<and> name \<noteq> [] \<and> snd (getOptionsKey options) = options"
  using assms
  by (auto simp add: getOptionsKey_def split: option.splits if_splits)

lemma getPropertiesToMap_unknown_group:
  assumes "group opts = Some name" and "name \<noteq> []" and "fieldGroups entry name = None"
  shows "getPropertiesToMap entry (Some opts) = []"
  using assms by (simp add: getPropertiesToMap_def)

lemma invoke_no_mappings:
  assumes "pathMappings m = []" and "transformMappings m = []" and "\<not> isNullish src"
  shows "invoke m src ctx s = (Inr (JObj (newInstance s (mapperTargetType m))), s)"
  using assms by (simp add: invoke_def)

lemma createMapper_compiledFrom:
  assumes "cacheSound s"
  shows "compiledFrom s T (fst (getOptionsKey options)) (fst (createMapper T options s))"
proof (cases "fst (getCompiledMapper T (Some (fst (getOptionsKey options))) s)")
  case (Some m)
  then show ?thesis
    using assms by (simp add: createMapper_hit [OF Some] cacheSound_def)
next
  case None
  show ?thesis
    unfolding compiledFrom_def
    by (rule exI [of _ options])
      (simp add: createMapper_miss [OF None] buildMapper_fields(4) buildMapper_fields(5)
        getEntry_entry [OF assms])
qed

text \<open>
  C8, as amended. In a state where \<open>cacheSound\<close> holds, for a group name that is not empty
  and not in the group index of the target: \<open>getPropertiesToMap\<close> selects no declaration,
  the mapper \<open>createMapper\<close> returns (compiled now or found in the cache) has no mapping,
  and on a source that is not null it returns the fresh instance with nothing assigned
  and no error; \<open>Mapper.group\<close> returns that instance.
\<close>

theorem unknown_group_maps_nothing:
  assumes "cacheSound s" and "name \<noteq> []" and "fieldGroups (fst (getEntry T s)) name = None"
  shows "getPropertiesToMap (fst (getEntry T s)) (groupOpt name) = []
    \<and> pathMappings (fst (createMapper T (groupOpt name) s)) = []
    \<and> transformMappings (fst (createMapper T (groupOpt name) s)) = []
    \<and> (\<not> isNullish src \<longrightarrow>
         invoke (fst (createMapper T (groupOpt name) s)) src ctx s'
           = (Inr (JObj (newInstance s' T)), s'))
    \<and> (\<not> isNullish src \<longrightarrow>
         Mapper_group src T name s
           = (Inr (JObj (newInstance s T)), snd (snd (createMapper T (groupOpt name) s))))"
proof -
  let ?m = "fst (createMapper T (groupOpt name) s)"
  have k: "fst (getOptionsKey (groupOpt name)) = ''group:'' @ name"
    using assms(2) by (simp add: getOptionsKey_def groupOpt_def)
  have fg: "fieldGroups (entryOf s T) name = None"
    using assms(3) getEntry_entry [OF assms(1), of T] by simp
  have a: "getPropertiesToMap (fst (getEntry T s)) (groupOpt name) = []"
    using assms(2,3) by (simp add: groupOpt_def getPropertiesToMap_unknown_group)
  have "compiledFrom s T (''group:'' @ name) ?m"
    using createMapper_compiledFrom [OF assms(1), of T "groupOpt name"] k by simp
  then obtain options where o: "''group:'' @ name = fst (getOptionsKey options)"
    and t: "mapperTargetType ?m = T"
    and f: "(pathMappings ?m, transformMappings ?m) =
             fold addMapping
               (getPropertiesToMap (entryOf s T) (snd (getOptionsKey options))) ([], [])"
    unfolding compiledFrom_def by blast
  obtain opts where oo: "options = Some opts" "group opts = Some name"
      "snd (getOptionsKey options) = options"
    using groupKey_options [OF o [symmetric]] by blast
  have "getPropertiesToMap (entryOf s T) (snd (getOptionsKey options)) = []"
    using oo assms(2) fg by (simp add: getPropertiesToMap_unknown_group)
  then have b: "pathMappings ?m = []" and c: "transformMappings ?m = []"
    using f by simp_all
  have d: "\<And>s'. \<not> isNullish src \<Longrightarrow> invoke ?m src ctx s' = (Inr (JObj (newInstance s' T)), s')"
    using invoke_no_mappings [OF b c] t by simp
  have n: "newInstance (snd (snd (createMapper T (groupOpt name) s))) = newInstance s"
    by (rule createMapper_newInstance)
  have e: "\<not> isNullish src \<Longrightarrow>
         Mapper_group src T name s
           = (Inr (JObj (newInstance s T)), snd (snd (createMapper T (groupOpt name) s)))"
    using invoke_no_mappings [OF b c, of src] t n
    by (simp add: Mapper_group_def Mapper_map_def case_prod_beta groupOpt_def)
  show ?thesis
    using a b c d e by blast
qed

text \<open>
  The theorem in the state after a first \<open>map\<close> with the unknown group, so that the mapper
  comes from the cache.
\<close>

theorem unknown_group_maps_nothing_witness:
  "cacheSound (exec (Map userEntity UserWithGroupsDto (groupOpt ''nonexistent'')) testWorld)
   \<and> ''nonexistent'' \<noteq> []
   \<and> fieldGroups (fst (getEntry UserWithGroupsDto
         (exec (Map userEntity UserWithGroupsDto (groupOpt ''nonexistent'')) testWorld)))
        ''nonexistent'' = None
   \<and> pathMappings (fst (createMapper UserWithGroupsDto (groupOpt ''nonexistent'')
         (exec (Map userEntity UserWithGroupsDto (groupOpt ''nonexistent'')) testWorld))) = []
   \<and> transformMappings (fst (createMapper UserWithGroupsDto (groupOpt ''nonexistent'')
         (exec (Map userEntity UserWithGroupsDto (groupOpt ''nonexistent'')) testWorld))) = []
   \<and> fst (Mapper_group userEntity UserWithGroupsDto ''nonexistent''
         (exec (Map userEntity UserWithGroupsDto (groupOpt ''nonexistent'')) testWorld))
       = Inr (JObj [])"
proof -
  let ?s = "exec (Map userEntity UserWithGroupsDto (groupOpt ''nonexistent'')) testWorld"
  have "cacheSound testWorld"
    by (rule cacheSound_empty) (simp_all add: testWorld_def)
  then have a: "cacheSound ?s"
    by (rule exec_sound)
  have b: "''nonexistent'' \<noteq> []"
    by simp
  have c: "fieldGroups (fst (getEntry UserWithGroupsDto ?s)) ''nonexistent'' = None"
    by (simp add: fixture_defs run_defs groupOpt_def)
  have n: "newInstance ?s UserWithGroupsDto = []"
    by (simp add: fixture_defs run_defs groupOpt_def)
  have i: "\<not> isNullish userEntity"
    by (simp add: userEntity_def)
  show ?thesis
    using a b c n i unknown_group_maps_nothing [OF a b c, of userEntity]
    by simp
qed

text \<open>
  C8 as stated fails for the empty group name: it is in no group index, but
  \<^verbatim>\<open>if (options.group)\<close> takes the empty string for an absent option, the signature
  is \<^verbatim>\<open>default\<close>, and every declaration is mapped.
\<close>

theorem empty_group_name_maps_all:
  "fieldGroups (fst (getEntry UserWithGroupsDto testWorld)) '''' = None
   \<and> map targetKey (getPropertiesToMap (fst (getEntry UserWithGroupsDto testWorld)) (groupOpt ''''))
       = [''username'', ''avatar'', ''bio'', ''email'', ''createdAt'']
   \<and> map fst (pathMappings (fst (createMapper UserWithGroupsDto (groupOpt '''') testWorld)))
       = [''username'', ''avatar'', ''bio'', ''email'', ''createdAt'']
   \<and> fst (Mapper_group userEntity UserWithGroupsDto '''' testWorld)
       = Inr (JObj [(''username'', Data (JStr ''john_doe'')),
                    (''avatar'', Data (JStr ''https://example.com/avatar.jpg'')),
                    (''bio'', Data (JStr ''Software developer'')),
                    (''email'', Data (JStr ''john@example.com'')),
                    (''createdAt'', Data (JStr ''2024-01-01''))])"
  by (simp add: fixture_defs run_defs groupOpt_def Mapper_group_def)

section \<open>The keys a compiled mapper assigns\<close>

lemma setProp_keys: "fst ` set (setProp r k v) = fst ` set r \<union> ({k} - {''__proto__''})"
  by (induction r) auto

lemma applyPathMappings_keys:
  "applyPathMappings ms src r s = (Inr r', s') \<Longrightarrow>
   fst ` set r' = fst ` set r \<union> (fst ` set ms - {''__proto__''})"
proof (induction ms arbitrary: r s)
  case Nil
  then show ?case by simp
next
  case (Cons a ms)
  obtain target p where a: "a = (target, p)" by (cases a)
  show ?case
  proof (cases p)
    case (Transform f)
    then show ?thesis using a Cons.prems by simp
  next
    case (PropertyPath path)
    obtain v s1 where g: "getNestedValue src path s = (v, s1)"
      by (cases "getNestedValue src path s")
    show ?thesis
    proof (cases v)
      case (Inl e)
      then show ?thesis using Cons.prems a PropertyPath g by simp
    next
      case (Inr x)
      have "applyPathMappings ms src (setProp r target x) s1 = (Inr r', s')"
        using Cons.prems a PropertyPath g Inr by simp
      then have "fst ` set r' = fst ` set (setProp r target x) \<union> (fst ` set ms - {''__proto__''})"
        by (rule Cons.IH)
      then show ?thesis
        using a by (auto simp add: setProp_keys)
    qed
  qed
qed

lemma applyTransformMappings_keys:
  "applyTransformMappings ms src ctx r s = (Inr r', s') \<Longrightarrow>
   fst ` set r' = fst ` set r \<union> (fst ` set ms - {''__proto__''})"
proof (induction ms arbitrary: r s)
  case Nil
  then show ?case by simp
next
  case (Cons a ms)
  obtain target f where a: "a = (target, f)" by (cases a)
  show ?case
  proof (cases "f src ctx")
    case (Inl e)
    then show ?thesis using a Cons.prems by (simp add: Let_def)
  next
    case (Inr v)
    have "applyTransformMappings ms src ctx (setProp r target v)
            (logEvent (CallTransform target) s) = (Inr r', s')"
      using Cons.prems a Inr by (simp add: Let_def)
    then have "fst ` set r' = fst ` set (setProp r target v) \<union> (fst ` set ms - {''__proto__''})"
      by (rule Cons.IH)
    then show ?thesis
      using a by (auto simp add: setProp_keys)
  qed
qed

lemma invoke_keys:
  assumes "invoke m src ctx s = (Inr (JObj r), s')"
  shows "fst ` set r = fst ` set (newInstance s (mapperTargetType m))
           \<union> (set (assignedKeys m) - {''__proto__''})"
proof -
  have nn: "\<not> isNullish src"
    using assms by (auto simp add: invoke_def split: if_splits)
  obtain r1 s1 where p: "applyPathMappings (pathMappings m) src
                (newInstance s (mapperTargetType m)) s = (r1, s1)"
    by (cases "applyPathMappings (pathMappings m) src (newInstance s (mapperTargetType m)) s")
  obtain res1 where r1: "r1 = Inr res1"
    using assms nn p by (cases r1) (simp_all add: invoke_def)
  obtain r2 s2 where t: "applyTransformMappings (transformMappings m) src ctx res1 s1 = (r2, s2)"
    by (cases "applyTransformMappings (transformMappings m) src ctx res1 s1")
  have r2: "r2 = Inr r"
    using assms nn p r1 t by (cases r2) (simp_all add: invoke_def)
  have k1: "fst ` set res1 = fst ` set (newInstance s (mapperTargetType m))
              \<union> (fst ` set (pathMappings m) - {''__proto__''})"
    using p r1 applyPathMappings_keys by simp
  have k2: "fst ` set r = fst ` set res1 \<union> (fst ` set (transformMappings m) - {''__proto__''})"
    using t r2 applyTransformMappings_keys by simp
  show ?thesis
    using k1 k2 by (auto simp add: assignedKeys_def)
qed

lemma applyPathMappings_returns:
  assumes "pathCacheOk s0"
  shows "pathCacheOk s \<Longrightarrow>
    \<forall>p\<in>set (map snd ms). \<exists>path v. p = PropertyPath path \<and> fst (getNestedValue src path s0) = Inr v
    \<Longrightarrow> \<exists>r'. fst (applyPathMappings ms src r s) = Inr r'"
proof (induction ms arbitrary: r s)
  case Nil
  then show ?case by simp
next
  case (Cons a ms)
  obtain target p where a: "a = (target, p)" by (cases a)
  obtain path v where p: "p = PropertyPath path" and v0: "fst (getNestedValue src path s0) = Inr v"
    using Cons.prems(2) a by auto
  have rest: "\<forall>p\<in>set (map snd ms).
      \<exists>path v. p = PropertyPath path \<and> fst (getNestedValue src path s0) = Inr v"
    using Cons.prems(2) by simp
  obtain x s1 where g: "getNestedValue src path s = (x, s1)"
    by (cases "getNestedValue src path s")
  have x: "x = Inr v"
    using getNestedValue_indep [OF Cons.prems(1) assms, of src path] g v0 by simp
  have o: "pathCacheOk s1"
    using getNestedValue_ok [OF Cons.prems(1), of src path] g by simp
  show ?case
    using Cons.IH [OF o rest, of "setProp r target v"] a p g x by simp
qed

lemma applyTransformMappings_returns:
  "\<forall>f\<in>set (map snd ms). \<exists>v. f src ctx = Inr v \<Longrightarrow>
   \<exists>r'. fst (applyTransformMappings ms src ctx r s) = Inr r'"
proof (induction ms arbitrary: r s)
  case Nil
  then show ?case by simp
next
  case (Cons a ms)
  obtain target f where a: "a = (target, f)" by (cases a)
  obtain v where v: "f src ctx = Inr v"
    using Cons.prems a by auto
  have rest: "\<forall>f\<in>set (map snd ms). \<exists>v. f src ctx = Inr v"
    using Cons.prems by simp
  show ?case
    using Cons.IH [OF rest, of "setProp r target v" "logEvent (CallTransform target) s"] a v
    by (simp add: Let_def)
qed

lemma invoke_returns:
  assumes "mapperReturns m src ctx s0" and "pathCacheOk s0" and "pathCacheOk s"
    and "\<not> isNullish src"
  shows "\<exists>r. fst (invoke m src ctx s) = Inr (JObj r)"
proof -
  obtain r1 s1 where p: "applyPathMappings (pathMappings m) src
                (newInstance s (mapperTargetType m)) s = (r1, s1)"
    by (cases "applyPathMappings (pathMappings m) src (newInstance s (mapperTargetType m)) s")
  have "\<forall>p\<in>set (map snd (pathMappings m)).
          \<exists>path v. p = PropertyPath path \<and> fst (getNestedValue src path s0) = Inr v"
    using assms(1) by (simp add: mapperReturns_def)
  then obtain res1 where r1: "r1 = Inr res1"
    using applyPathMappings_returns [OF assms(2) assms(3), of "pathMappings m" src
        "newInstance s (mapperTargetType m)"] p
    by auto
  obtain r2 s2 where t: "applyTransformMappings (transformMappings m) src ctx res1 s1 = (r2, s2)"
    by (cases "applyTransformMappings (transformMappings m) src ctx res1 s1")
  obtain res2 where r2: "r2 = Inr res2"
    using applyTransformMappings_returns [of "transformMappings m" src ctx res1 s1] assms(1) t
    by (auto simp add: mapperReturns_def)
  show ?thesis
    using assms(4) p r1 t r2 by (simp add: invoke_def)
qed

lemma fold_addMapping_keys:
  "fst ` set (fst (fold addMapping ps acc)) \<union> fst ` set (snd (fold addMapping ps acc))
   = fst ` set (fst acc) \<union> fst ` set (snd acc) \<union> targetKey ` set ps"
proof (induction ps arbitrary: acc)
  case Nil
  then show ?case by simp
next
  case (Cons c ps)
  have "fst ` set (fst (addMapping c acc)) \<union> fst ` set (snd (addMapping c acc))
        = fst ` set (fst acc) \<union> fst ` set (snd acc) \<union> {targetKey c}"
    by (cases acc) (auto simp add: addMapping_def split: PropertySource.splits)
  then show ?case
    using Cons.IH [of "addMapping c acc"] by auto
qed

lemma buildMapper_assignedKeys:
  "set (assignedKeys (fst (buildMapper T e ps s))) = targetKey ` set ps"
  using fold_addMapping_keys [of ps "([], [])"]
  by (simp add: assignedKeys_def buildMapper_def case_prod_beta)

section \<open>The path cache stays well formed\<close>

text \<open>\<open>pathCacheOk\<close> is kept by every call of the interface.\<close>

lemma mapArrayLoop_ok: "pathCacheOk s \<Longrightarrow> pathCacheOk (snd (mapArrayLoop m ctx xs s))"
proof (induction xs arbitrary: s)
  case Nil
  then show ?case by simp
next
  case (Cons x xs)
  show ?case
  proof (cases "isNullish x")
    case True
    then show ?thesis
      using Cons.IH [OF Cons.prems]
      by (cases "mapArrayLoop m ctx xs s") (auto split: sum.splits)
  next
    case False
    obtain r s1 where i: "invoke m x ctx s = (r, s1)"
      by (cases "invoke m x ctx s")
    have o1: "pathCacheOk s1"
      using invoke_ok [OF Cons.prems, of m x ctx] i by simp
    show ?thesis
      using False i o1 Cons.IH [OF o1]
      by (cases r; cases "mapArrayLoop m ctx xs s1") (auto split: sum.splits)
  qed
qed

lemma createMapper_ok:
  assumes "pathCacheOk s"
  shows "pathCacheOk (snd (snd (createMapper T options s)))"
proof -
  have "pathCacheOk (snd (snd (createMapper T options s))) = pathCacheOk s"
    using createMapper_pathCache by (rule pathCacheOk_cong)
  then show ?thesis using assms by simp
qed

lemma exec_pathCacheOk:
  assumes "pathCacheOk s"
  shows "pathCacheOk (exec c s)"
proof (cases c)
  case (CreateMapper T options)
  then show ?thesis using createMapper_ok [OF assms] by simp
next
  case (Map src T options)
  show ?thesis
  proof (cases "isNullish src")
    case True
    then show ?thesis using Map assms by (simp add: Mapper_map_def)
  next
    case False
    then show ?thesis
      using Map invoke_ok [OF createMapper_ok [OF assms, of T options]]
      by (simp add: Mapper_map_def case_prod_beta)
  qed
next
  case (MapArray srcs T options)
  show ?thesis
  proof (cases srcs)
    case (NotArray v)
    then show ?thesis using MapArray assms by (simp add: Mapper_mapArray_def)
  next
    case (IsArray xs)
    then show ?thesis
      using MapArray mapArrayLoop_ok [OF createMapper_ok [OF assms, of T options]]
      by (simp add: Mapper_mapArray_def case_prod_beta)
  qed
next
  case (GetCompiledMapper T options)
  then show ?thesis using assms by (simp add: Mapper_getCompiledMapper_state)
next
  case ClearCache
  have "pathCacheOk (clearCache s) = pathCacheOk s"
    by (rule pathCacheOk_cong) (simp add: clearCache_def)
  then show ?thesis using ClearCache assms by (simp add: Mapper_clearCache_def)
qed

lemma execAll_pathCacheOk: "pathCacheOk s \<Longrightarrow> pathCacheOk (execAll calls s)"
proof (induction calls arbitrary: s)
  case Nil
  then show ?case by (simp add: execAll_def)
next
  case (Cons c calls)
  have "pathCacheOk (exec c s)"
    using Cons.prems by (rule exec_pathCacheOk)
  then have "pathCacheOk (execAll calls (exec c s))"
    by (rule Cons.IH)
  then show ?case by (simp add: execAll_def)
qed

section \<open>Pick and omit\<close>

lemma getPropertiesToMap_pick:
  assumes "\<not> truthyString (group opts)" and "pick opts = Some F" and "F \<noteq> []"
  shows "getPropertiesToMap e (Some opts) =
           filter (\<lambda>c. targetKey c \<in> set F)
             (filter (\<lambda>c. \<not> ignore c) (map snd (propertyConfigs e)))"
  using assms by (simp add: getPropertiesToMap_def)

lemma getPropertiesToMap_omit:
  assumes "\<not> truthyString (group opts)" and "\<not> nonEmptyArray (pick opts)"
    and "omit opts = Some F"
  shows "getPropertiesToMap e (Some opts) =
           filter (\<lambda>c. targetKey c \<notin> set F)
             (filter (\<lambda>c. \<not> ignore c) (map snd (propertyConfigs e)))"
  using assms by (cases "F = []") (simp_all add: getPropertiesToMap_def Let_def)

lemma createMapper_miss_assignedKeys:
  assumes "fst (getCompiledMapper T (Some (fst (getOptionsKey options))) s) = None"
  shows "set (assignedKeys (fst (createMapper T options s)))
         = targetKey ` set (getPropertiesToMap (fst (getEntry T s)) (snd (getOptionsKey options)))"
    and "mapperTargetType (fst (createMapper T options s)) = T"
  by (simp_all add: createMapper_miss [OF assms] buildMapper_assignedKeys buildMapper_fields(4))

lemma pick_assignedKeys:
  assumes "fst (getCompiledMapper T (Some (fst (getOptionsKey (pickOpt F)))) s) = None"
    and "F \<noteq> []"
    and "\<forall>c\<in>set (map snd (propertyConfigs (fst (getEntry T s)))). \<not> ignore c"
  shows "set (assignedKeys (fst (createMapper T (pickOpt F) s)))
         = set F \<inter> declaredKeys (fst (getEntry T s))"
proof -
  have o: "snd (getOptionsKey (pickOpt F)) = pickOpt (sort F)"
    by (simp add: getOptionsKey_def pickOpt_def)
  have n: "sort F \<noteq> []"
    using assms(2) by (metis length_sort length_0_conv)
  have "getPropertiesToMap (fst (getEntry T s)) (pickOpt (sort F)) =
           filter (\<lambda>c. targetKey c \<in> set (sort F))
             (filter (\<lambda>c. \<not> ignore c) (map snd (propertyConfigs (fst (getEntry T s)))))"
    unfolding pickOpt_def by (rule getPropertiesToMap_pick) (simp_all add: n)
  then have "targetKey ` set (getPropertiesToMap (fst (getEntry T s)) (pickOpt (sort F)))
             = set F \<inter> declaredKeys (fst (getEntry T s))"
    using assms(3) by (auto simp add: declaredKeys_def)
  then show ?thesis
    using createMapper_miss_assignedKeys(1) [OF assms(1)] o by simp
qed

lemma omit_assignedKeys:
  assumes "fst (getCompiledMapper T (Some (fst (getOptionsKey (omitOpt F)))) s) = None"
    and "\<forall>c\<in>set (map snd (propertyConfigs (fst (getEntry T s)))). \<not> ignore c"
  shows "set (assignedKeys (fst (createMapper T (omitOpt F) s)))
         = declaredKeys (fst (getEntry T s)) - set F"
proof -
  have o: "snd (getOptionsKey (omitOpt F)) = omitOpt (sort F)"
    by (simp add: getOptionsKey_def omitOpt_def)
  have "getPropertiesToMap (fst (getEntry T s)) (omitOpt (sort F)) =
           filter (\<lambda>c. targetKey c \<notin> set (sort F))
             (filter (\<lambda>c. \<not> ignore c) (map snd (propertyConfigs (fst (getEntry T s)))))"
    unfolding omitOpt_def by (rule getPropertiesToMap_omit) simp_all
  then have "targetKey ` set (getPropertiesToMap (fst (getEntry T s)) (omitOpt (sort F)))
             = declaredKeys (fst (getEntry T s)) - set F"
    using assms(2) by (auto simp add: declaredKeys_def)
  then show ?thesis
    using createMapper_miss_assignedKeys(1) [OF assms(1)] o by simp
qed

lemma Mapper_map_result:
  assumes "\<not> isNullish src"
  shows "fst (Mapper_map src T options s) =
           fst (invoke (fst (createMapper T options s)) src
                  (makeContext (snd (getOptionsKey options)) (snd (snd (createMapper T options s))))
                  (snd (snd (createMapper T options s))))"
  using assms createMapper_options [of T options s]
  by (simp add: Mapper_map_def case_prod_beta)

lemma Mapper_map_keys:
  assumes "fst (Mapper_map src T options s) = Inr (JObj r)"
    and "mapperTargetType (fst (createMapper T options s)) = T"
  shows "fst ` set r = fst ` set (newInstance s T)
           \<union> (set (assignedKeys (fst (createMapper T options s))) - {''__proto__''})"
proof -
  let ?m = "fst (createMapper T options s)"
  let ?s1 = "snd (snd (createMapper T options s))"
  let ?ctx = "makeContext (snd (getOptionsKey options)) ?s1"
  have nn: "\<not> isNullish src"
    using assms(1) by (auto simp add: Mapper_map_def split: if_splits)
  have "fst (invoke ?m src ?ctx ?s1) = Inr (JObj r)"
    using assms(1) Mapper_map_result [OF nn, of T options s] by simp
  then have "invoke ?m src ?ctx ?s1 = (Inr (JObj r), snd (invoke ?m src ?ctx ?s1))"
    by (simp add: prod_eq_iff)
  then have "fst ` set r = fst ` set (newInstance ?s1 (mapperTargetType ?m))
               \<union> (set (assignedKeys ?m) - {''__proto__''})"
    by (rule invoke_keys)
  then show ?thesis
    using assms(2) createMapper_newInstance [of T options s] by simp
qed

lemma Mapper_map_returns:
  assumes "\<not> isNullish src" and "pathCacheOk s"
    and "mapperReturns (fst (createMapper T options s)) src
           (makeContext (snd (getOptionsKey options)) (snd (snd (createMapper T options s)))) s"
  shows "\<exists>r. fst (Mapper_map src T options s) = Inr (JObj r)"
  using invoke_returns [OF assms(3) assms(2) createMapper_ok [OF assms(2)] assms(1)]
    Mapper_map_result [OF assms(1), of T options s]
  by simp

lemma Mapper_pick_result: "fst (Mapper_pick src T F s) = fst (Mapper_map src T (pickOpt F) s)"
  by (simp add: Mapper_pick_def pickOpt_def case_prod_beta)

lemma Mapper_omit_result: "fst (Mapper_omit src T F s) = fst (Mapper_map src T (omitOpt F) s)"
  by (simp add: Mapper_omit_def omitOpt_def case_prod_beta)

lemma Mapper_pick_state:
  "snd (snd (Mapper_pick src T F s)) = snd (snd (Mapper_map src T (pickOpt F) s))"
  by (simp add: Mapper_pick_def pickOpt_def case_prod_beta)

lemma Mapper_omit_state:
  "snd (snd (Mapper_omit src T F s)) = snd (snd (Mapper_map src T (omitOpt F) s))"
  by (simp add: Mapper_omit_def omitOpt_def case_prod_beta)

lemma createMapper_after_map:
  assumes "fst (getOptionsKey opt1) = fst (getOptionsKey opt2)" and "\<not> isNullish src0"
  shows "fst (createMapper T opt2 (execAll calls (snd (snd (Mapper_map src0 T opt1 s)))))
         = fst (createMapper T opt1 s)"
proof -
  let ?c = "createMapper T opt1 s"
  have a: "fst (getCompiledMapper T (Some (fst (getOptionsKey opt2))) (snd (snd ?c)))
           = Some (fst ?c)"
    using createMapper_stores [of T opt1 s] assms(1) by simp
  have "compiledMappers (snd (invoke (fst ?c) src0 (makeContext (fst (snd ?c)) (snd (snd ?c)))
            (snd (snd ?c)))) = compiledMappers (snd (snd ?c))"
    using invoke_frame by (rule lookupFrame_fields(1))
  then have "fst (getCompiledMapper T (Some (fst (getOptionsKey opt2)))
                (snd (invoke (fst ?c) src0 (makeContext (fst (snd ?c)) (snd (snd ?c)))
                   (snd (snd ?c)))))
             = fst (getCompiledMapper T (Some (fst (getOptionsKey opt2))) (snd (snd ?c)))"
    by (rule getCompiledMapper_cong)
  then have "fst (getCompiledMapper T (Some (fst (getOptionsKey opt2)))
                (snd (snd (Mapper_map src0 T opt1 s)))) = Some (fst ?c)"
    using a assms(2) by (simp add: Mapper_map_def case_prod_beta)
  then have "fst (getCompiledMapper T (Some (fst (getOptionsKey opt2)))
               (execAll calls (snd (snd (Mapper_map src0 T opt1 s))))) = Some (fst ?c)"
    by (rule execAll_keeps)
  then show ?thesis
    by (simp add: createMapper_hit)
qed

text \<open>
  The mapper of a pick list, at the call that compiles it and at every later call with
  the same names in any order.
\<close>

lemma pick_mapper:
  assumes "\<forall>c\<in>set (map snd (propertyConfigs (fst (getEntry T s)))). \<not> ignore c"
    and "mset F' = mset F"
    and "F \<noteq> []"
    and "fst (getCompiledMapper T (Some (fst (getOptionsKey (pickOpt F)))) s) = None"
    and "s' = s \<or> s' = execAll calls (snd (snd (createMapper T (pickOpt F) s)))
         \<or> (\<not> isNullish src0 \<and> s' = execAll calls (snd (snd (Mapper_pick src0 T F s))))"
  shows "set (assignedKeys (fst (createMapper T (pickOpt F') s')))
           = set F \<inter> declaredKeys (fst (getEntry T s))"
    and "mapperTargetType (fst (createMapper T (pickOpt F') s')) = T"
proof -
  have k: "fst (getOptionsKey (pickOpt F)) = fst (getOptionsKey (pickOpt F'))"
    using sort_mset_eq [OF assms(2)] by (simp add: getOptionsKey_def pickOpt_def)
  have st: "set F' = set F"
    using assms(2) by (rule mset_eq_setD)
  have ne: "F' \<noteq> []"
    using assms(2,3) by auto
  have "set (assignedKeys (fst (createMapper T (pickOpt F') s')))
           = set F \<inter> declaredKeys (fst (getEntry T s))
        \<and> mapperTargetType (fst (createMapper T (pickOpt F') s')) = T"
  proof (cases "s' = s")
    case True
    have miss: "fst (getCompiledMapper T (Some (fst (getOptionsKey (pickOpt F')))) s) = None"
      using assms(4) k by simp
    show ?thesis
      using pick_assignedKeys [OF miss ne assms(1)] createMapper_miss_assignedKeys(2) [OF miss]
        st True
      by simp
  next
    case False
    then have "s' = execAll calls (snd (snd (createMapper T (pickOpt F) s)))
        \<or> (\<not> isNullish src0 \<and> s' = execAll calls (snd (snd (Mapper_map src0 T (pickOpt F) s))))"
      using assms(5) by (simp add: Mapper_pick_state)
    then have "fst (createMapper T (pickOpt F') s') = fst (createMapper T (pickOpt F) s)"
      using createMapper_again [OF k, of T calls s] createMapper_after_map [OF k, of src0 T calls s]
      by auto
    then show ?thesis
      using pick_assignedKeys [OF assms(4) assms(3) assms(1)]
        createMapper_miss_assignedKeys(2) [OF assms(4)]
      by simp
  qed
  then show "set (assignedKeys (fst (createMapper T (pickOpt F') s')))
           = set F \<inter> declaredKeys (fst (getEntry T s))"
    and "mapperTargetType (fst (createMapper T (pickOpt F') s')) = T"
    by simp_all
qed

lemma omit_mapper:
  assumes "\<forall>c\<in>set (map snd (propertyConfigs (fst (getEntry T s)))). \<not> ignore c"
    and "mset F' = mset F"
    and "fst (getCompiledMapper T (Some (fst (getOptionsKey (omitOpt F)))) s) = None"
    and "s' = s \<or> s' = execAll calls (snd (snd (createMapper T (omitOpt F) s)))
         \<or> (\<not> isNullish src0 \<and> s' = execAll calls (snd (snd (Mapper_omit src0 T F s))))"
  shows "set (assignedKeys (fst (createMapper T (omitOpt F') s')))
           = declaredKeys (fst (getEntry T s)) - set F"
    and "mapperTargetType (fst (createMapper T (omitOpt F') s')) = T"
proof -
  have k: "fst (getOptionsKey (omitOpt F)) = fst (getOptionsKey (omitOpt F'))"
    using sort_mset_eq [OF assms(2)] by (simp add: getOptionsKey_def omitOpt_def)
  have st: "set F' = set F"
    using assms(2) by (rule mset_eq_setD)
  have "set (assignedKeys (fst (createMapper T (omitOpt F') s')))
           = declaredKeys (fst (getEntry T s)) - set F
        \<and> mapperTargetType (fst (createMapper T (omitOpt F') s')) = T"
  proof (cases "s' = s")
    case True
    have miss: "fst (getCompiledMapper T (Some (fst (getOptionsKey (omitOpt F')))) s) = None"
      using assms(3) k by simp
    show ?thesis
      using omit_assignedKeys [OF miss assms(1)] createMapper_miss_assignedKeys(2) [OF miss]
        st True
      by simp
  next
    case False
    then have "s' = execAll calls (snd (snd (createMapper T (omitOpt F) s)))
        \<or> (\<not> isNullish src0 \<and> s' = execAll calls (snd (snd (Mapper_map src0 T (omitOpt F) s))))"
      using assms(4) by (simp add: Mapper_omit_state)
    then have "fst (createMapper T (omitOpt F') s') = fst (createMapper T (omitOpt F) s)"
      using createMapper_again [OF k, of T calls s] createMapper_after_map [OF k, of src0 T calls s]
      by auto
    then show ?thesis
      using omit_assignedKeys [OF assms(3) assms(1)]
        createMapper_miss_assignedKeys(2) [OF assms(3)]
      by simp
  qed
  then show "set (assignedKeys (fst (createMapper T (omitOpt F') s')))
           = declaredKeys (fst (getEntry T s)) - set F"
    and "mapperTargetType (fst (createMapper T (omitOpt F') s')) = T"
    by simp_all
qed

lemma pick_complement:
  assumes "\<forall>c\<in>set (map snd (propertyConfigs (fst (getEntry T s)))). \<not> ignore c"
    and "mset F' = mset F"
    and "F \<noteq> []"
    and "fst (getCompiledMapper T (Some (fst (getOptionsKey (pickOpt F)))) s) = None"
    and "s' = s \<or> s' = execAll calls (snd (snd (createMapper T (pickOpt F) s)))
         \<or> (\<not> isNullish src0 \<and> s' = execAll calls (snd (snd (Mapper_pick src0 T F s))))"
  shows "set (assignedKeys (fst (createMapper T (pickOpt F') s')))
           = set F \<inter> declaredKeys (fst (getEntry T s))
       \<and> (\<forall>r. fst (Mapper_pick src T F' s') = Inr (JObj r) \<longrightarrow>
            fst ` set r = fst ` set (newInstance s' T)
              \<union> (set F \<inter> declaredKeys (fst (getEntry T s)) - {''__proto__''}))
       \<and> (\<not> isNullish src \<and> pathCacheOk s'
           \<and> mapperReturns (fst (createMapper T (pickOpt F') s')) src
               (makeContext (pickOpt (sort F')) (snd (snd (createMapper T (pickOpt F') s')))) s'
           \<longrightarrow> (\<exists>r. fst (Mapper_pick src T F' s') = Inr (JObj r)))"
proof (intro conjI allI impI)
  have op: "snd (getOptionsKey (pickOpt F')) = pickOpt (sort F')"
    by (simp add: getOptionsKey_def pickOpt_def)
  show k: "set (assignedKeys (fst (createMapper T (pickOpt F') s')))
         = set F \<inter> declaredKeys (fst (getEntry T s))"
    using assms by (rule pick_mapper(1))
  have t: "mapperTargetType (fst (createMapper T (pickOpt F') s')) = T"
    using assms by (rule pick_mapper(2))
  show "fst ` set r = fst ` set (newInstance s' T)
          \<union> (set F \<inter> declaredKeys (fst (getEntry T s)) - {''__proto__''})"
    if "fst (Mapper_pick src T F' s') = Inr (JObj r)" for r
  proof -
    have "fst (Mapper_map src T (pickOpt F') s') = Inr (JObj r)"
      using that by (simp only: Mapper_pick_result)
    then have "fst ` set r = fst ` set (newInstance s' T)
                 \<union> (set (assignedKeys (fst (createMapper T (pickOpt F') s'))) - {''__proto__''})"
      using t by (rule Mapper_map_keys)
    then show ?thesis
      by (simp only: k)
  qed
  show "\<exists>r. fst (Mapper_pick src T F' s') = Inr (JObj r)"
    if h: "\<not> isNullish src \<and> pathCacheOk s'
           \<and> mapperReturns (fst (createMapper T (pickOpt F') s')) src
               (makeContext (pickOpt (sort F')) (snd (snd (createMapper T (pickOpt F') s')))) s'"
  proof -
    have "mapperReturns (fst (createMapper T (pickOpt F') s')) src
            (makeContext (snd (getOptionsKey (pickOpt F')))
               (snd (snd (createMapper T (pickOpt F') s')))) s'"
      using h by (simp only: op)
    with conjunct1 [OF h] conjunct1 [OF conjunct2 [OF h]]
    have "\<exists>r. fst (Mapper_map src T (pickOpt F') s') = Inr (JObj r)"
      by (rule Mapper_map_returns)
    then show ?thesis
      by (simp only: Mapper_pick_result)
  qed
qed

lemma omit_complement:
  assumes "\<forall>c\<in>set (map snd (propertyConfigs (fst (getEntry T s)))). \<not> ignore c"
    and "mset F' = mset F"
    and "fst (getCompiledMapper T (Some (fst (getOptionsKey (omitOpt F)))) s) = None"
    and "s' = s \<or> s' = execAll calls (snd (snd (createMapper T (omitOpt F) s)))
         \<or> (\<not> isNullish src0 \<and> s' = execAll calls (snd (snd (Mapper_omit src0 T F s))))"
  shows "set (assignedKeys (fst (createMapper T (omitOpt F') s')))
           = declaredKeys (fst (getEntry T s)) - set F
       \<and> (\<forall>r. fst (Mapper_omit src T F' s') = Inr (JObj r) \<longrightarrow>
            fst ` set r = fst ` set (newInstance s' T)
              \<union> (declaredKeys (fst (getEntry T s)) - set F - {''__proto__''}))
       \<and> (\<not> isNullish src \<and> pathCacheOk s'
           \<and> mapperReturns (fst (createMapper T (omitOpt F') s')) src
               (makeContext (omitOpt (sort F')) (snd (snd (createMapper T (omitOpt F') s')))) s'
           \<longrightarrow> (\<exists>r. fst (Mapper_omit src T F' s') = Inr (JObj r)))"
proof (intro conjI allI impI)
  have oo: "snd (getOptionsKey (omitOpt F')) = omitOpt (sort F')"
    by (simp add: getOptionsKey_def omitOpt_def)
  show k: "set (assignedKeys (fst (createMapper T (omitOpt F') s')))
         = declaredKeys (fst (getEntry T s)) - set F"
    using assms by (rule omit_mapper(1))
  have t: "mapperTargetType (fst (createMapper T (omitOpt F') s')) = T"
    using assms by (rule omit_mapper(2))
  show "fst ` set r = fst ` set (newInstance s' T)
          \<union> (declaredKeys (fst (getEntry T s)) - set F - {''__proto__''})"
    if "fst (Mapper_omit src T F' s') = Inr (JObj r)" for r
  proof -
    have "fst (Mapper_map src T (omitOpt F') s') = Inr (JObj r)"
      using that by (simp only: Mapper_omit_result)
    then have "fst ` set r = fst ` set (newInstance s' T)
                 \<union> (set (assignedKeys (fst (createMapper T (omitOpt F') s'))) - {''__proto__''})"
      using t by (rule Mapper_map_keys)
    then show ?thesis
      by (simp only: k)
  qed
  show "\<exists>r. fst (Mapper_omit src T F' s') = Inr (JObj r)"
    if h: "\<not> isNullish src \<and> pathCacheOk s'
           \<and> mapperReturns (fst (createMapper T (omitOpt F') s')) src
               (makeContext (omitOpt (sort F')) (snd (snd (createMapper T (omitOpt F') s')))) s'"
  proof -
    have "mapperReturns (fst (createMapper T (omitOpt F') s')) src
            (makeContext (snd (getOptionsKey (omitOpt F')))
               (snd (snd (createMapper T (omitOpt F') s')))) s'"
      using h by (simp only: oo)
    with conjunct1 [OF h] conjunct1 [OF conjunct2 [OF h]]
    have "\<exists>r. fst (Mapper_map src T (omitOpt F') s') = Inr (JObj r)"
      by (rule Mapper_map_returns)
    then show ?thesis
      by (simp only: Mapper_omit_result)
  qed
qed

text \<open>
  C4, as amended. The target has no ignored declaration, the options name no group, and
  no mapper is cached under the signature of \<open>pick(F)\<close> (of \<open>omit(F)\<close>) in the state \<open>s\<close>.
  Then at the call in \<open>s\<close>, which compiles the mapper, and at every call after a
  \<open>createMapper\<close> or a \<open>pick\<close> (an \<open>omit\<close>) of \<open>F\<close> on a non-null source in \<open>s\<close>, whatever
  calls of the interface come between, with the names of \<open>F\<close> in any order: for \<open>F\<close> not
  empty, the mapper of \<open>pick\<close> assigns exactly the keys of \<open>F\<close> that are declared; the mapper
  of \<open>omit\<close> assigns exactly the declared keys not in \<open>F\<close>. The object \<open>Mapper.pick\<close> or
  \<open>Mapper.omit\<close> returns has these keys, a key \<^verbatim>\<open>__proto__\<close> apart, besides those of the
  fresh instance, and it is returned whenever the selected declarations evaluate on the
  source: a name in \<open>F\<close> that is not declared is dropped and raises nothing.
\<close>

theorem pick_omit_complementarity:
  assumes "\<forall>c\<in>set (map snd (propertyConfigs (fst (getEntry T s)))). \<not> ignore c"
    and "mset F' = mset F"
  shows
   "(F \<noteq> [] \<and> fst (getCompiledMapper T (Some (fst (getOptionsKey (pickOpt F)))) s) = None
       \<and> (s' = s \<or> s' = execAll calls (snd (snd (createMapper T (pickOpt F) s)))
         \<or> (\<not> isNullish src0 \<and> s' = execAll calls (snd (snd (Mapper_pick src0 T F s))))) \<longrightarrow>
       set (assignedKeys (fst (createMapper T (pickOpt F') s')))
           = set F \<inter> declaredKeys (fst (getEntry T s))
       \<and> (\<forall>r. fst (Mapper_pick src T F' s') = Inr (JObj r) \<longrightarrow>
            fst ` set r = fst ` set (newInstance s' T)
              \<union> (set F \<inter> declaredKeys (fst (getEntry T s)) - {''__proto__''}))
       \<and> (\<not> isNullish src \<and> pathCacheOk s'
           \<and> mapperReturns (fst (createMapper T (pickOpt F') s')) src
               (makeContext (pickOpt (sort F')) (snd (snd (createMapper T (pickOpt F') s')))) s'
           \<longrightarrow> (\<exists>r. fst (Mapper_pick src T F' s') = Inr (JObj r))))
    \<and> (fst (getCompiledMapper T (Some (fst (getOptionsKey (omitOpt F)))) s) = None
       \<and> (s' = s \<or> s' = execAll calls (snd (snd (createMapper T (omitOpt F) s)))
         \<or> (\<not> isNullish src0 \<and> s' = execAll calls (snd (snd (Mapper_omit src0 T F s))))) \<longrightarrow>
       set (assignedKeys (fst (createMapper T (omitOpt F') s')))
           = declaredKeys (fst (getEntry T s)) - set F
       \<and> (\<forall>r. fst (Mapper_omit src T F' s') = Inr (JObj r) \<longrightarrow>
            fst ` set r = fst ` set (newInstance s' T)
              \<union> (declaredKeys (fst (getEntry T s)) - set F - {''__proto__''}))
       \<and> (\<not> isNullish src \<and> pathCacheOk s'
           \<and> mapperReturns (fst (createMapper T (omitOpt F') s')) src
               (makeContext (omitOpt (sort F')) (snd (snd (createMapper T (omitOpt F') s')))) s'
           \<longrightarrow> (\<exists>r. fst (Mapper_omit src T F' s') = Inr (JObj r))))"
proof (rule conjI)
  show "F \<noteq> [] \<and> fst (getCompiledMapper T (Some (fst (getOptionsKey (pickOpt F)))) s) = None
       \<and> (s' = s \<or> s' = execAll calls (snd (snd (createMapper T (pickOpt F) s)))
         \<or> (\<not> isNullish src0 \<and> s' = execAll calls (snd (snd (Mapper_pick src0 T F s))))) \<longrightarrow>
       set (assignedKeys (fst (createMapper T (pickOpt F') s')))
           = set F \<inter> declaredKeys (fst (getEntry T s))
       \<and> (\<forall>r. fst (Mapper_pick src T F' s') = Inr (JObj r) \<longrightarrow>
            fst ` set r = fst ` set (newInstance s' T)
              \<union> (set F \<inter> declaredKeys (fst (getEntry T s)) - {''__proto__''}))
       \<and> (\<not> isNullish src \<and> pathCacheOk s'
           \<and> mapperReturns (fst (createMapper T (pickOpt F') s')) src
               (makeContext (pickOpt (sort F')) (snd (snd (createMapper T (pickOpt F') s')))) s'
           \<longrightarrow> (\<exists>r. fst (Mapper_pick src T F' s') = Inr (JObj r)))"
  proof (rule impI)
    assume h: "F \<noteq> [] \<and> fst (getCompiledMapper T (Some (fst (getOptionsKey (pickOpt F)))) s) = None
       \<and> (s' = s \<or> s' = execAll calls (snd (snd (createMapper T (pickOpt F) s)))
         \<or> (\<not> isNullish src0 \<and> s' = execAll calls (snd (snd (Mapper_pick src0 T F s)))))"
    show "set (assignedKeys (fst (createMapper T (pickOpt F') s')))
           = set F \<inter> declaredKeys (fst (getEntry T s))
       \<and> (\<forall>r. fst (Mapper_pick src T F' s') = Inr (JObj r) \<longrightarrow>
            fst ` set r = fst ` set (newInstance s' T)
              \<union> (set F \<inter> declaredKeys (fst (getEntry T s)) - {''__proto__''}))
       \<and> (\<not> isNullish src \<and> pathCacheOk s'
           \<and> mapperReturns (fst (createMapper T (pickOpt F') s')) src
               (makeContext (pickOpt (sort F')) (snd (snd (createMapper T (pickOpt F') s')))) s'
           \<longrightarrow> (\<exists>r. fst (Mapper_pick src T F' s') = Inr (JObj r)))"
      using assms conjunct1 [OF h] conjunct1 [OF conjunct2 [OF h]] conjunct2 [OF conjunct2 [OF h]]
      by (rule pick_complement)
  qed
next
  show "fst (getCompiledMapper T (Some (fst (getOptionsKey (omitOpt F)))) s) = None
       \<and> (s' = s \<or> s' = execAll calls (snd (snd (createMapper T (omitOpt F) s)))
         \<or> (\<not> isNullish src0 \<and> s' = execAll calls (snd (snd (Mapper_omit src0 T F s))))) \<longrightarrow>
       set (assignedKeys (fst (createMapper T (omitOpt F') s')))
           = declaredKeys (fst (getEntry T s)) - set F
       \<and> (\<forall>r. fst (Mapper_omit src T F' s') = Inr (JObj r) \<longrightarrow>
            fst ` set r = fst ` set (newInstance s' T)
              \<union> (declaredKeys (fst (getEntry T s)) - set F - {''__proto__''}))
       \<and> (\<not> isNullish src \<and> pathCacheOk s'
           \<and> mapperReturns (fst (createMapper T (omitOpt F') s')) src
               (makeContext (omitOpt (sort F')) (snd (snd (createMapper T (omitOpt F') s')))) s'
           \<longrightarrow> (\<exists>r. fst (Mapper_omit src T F' s') = Inr (JObj r)))"
  proof (rule impI)
    assume h: "fst (getCompiledMapper T (Some (fst (getOptionsKey (omitOpt F)))) s) = None
       \<and> (s' = s \<or> s' = execAll calls (snd (snd (createMapper T (omitOpt F) s)))
         \<or> (\<not> isNullish src0 \<and> s' = execAll calls (snd (snd (Mapper_omit src0 T F s)))))"
    show "set (assignedKeys (fst (createMapper T (omitOpt F') s')))
           = declaredKeys (fst (getEntry T s)) - set F
       \<and> (\<forall>r. fst (Mapper_omit src T F' s') = Inr (JObj r) \<longrightarrow>
            fst ` set r = fst ` set (newInstance s' T)
              \<union> (declaredKeys (fst (getEntry T s)) - set F - {''__proto__''}))
       \<and> (\<not> isNullish src \<and> pathCacheOk s'
           \<and> mapperReturns (fst (createMapper T (omitOpt F') s')) src
               (makeContext (omitOpt (sort F')) (snd (snd (createMapper T (omitOpt F') s')))) s'
           \<longrightarrow> (\<exists>r. fst (Mapper_omit src T F' s') = Inr (JObj r)))"
      using assms conjunct1 [OF h] conjunct2 [OF h]
      by (rule omit_complement)
  qed
qed

text \<open>
  The theorem on the fixture, where \<^verbatim>\<open>nickname\<close> is not declared: the second call of
  \<open>pick\<close> and of \<open>omit\<close>, with the names in another order, after a \<open>clearCache\<close> and a \<open>map\<close>
  without options.
\<close>

theorem pick_omit_complementarity_witness:
  "filter ignore (map snd (propertyConfigs (fst (getEntry UserDto testWorld)))) = []
   \<and> mset [''nickname'', ''avatar'', ''username''] = mset [''username'', ''avatar'', ''nickname'']
   \<and> fst (getCompiledMapper UserDto
             (Some (fst (getOptionsKey (pickOpt [''username'', ''avatar'', ''nickname''])))) testWorld)
       = None
   \<and> fst (getCompiledMapper UserDto
             (Some (fst (getOptionsKey (omitOpt [''email'', ''isAdult'', ''nickname''])))) testWorld)
       = None
   \<and> declaredKeys (fst (getEntry UserDto testWorld))
       = {''username'', ''avatar'', ''isAdult'', ''email''}
   \<and> set (assignedKeys (fst (createMapper UserDto
             (pickOpt [''nickname'', ''avatar'', ''username''])
             (execAll [ClearCache, Map userEntity UserDto None]
                (snd (snd (Mapper_pick userEntity UserDto [''username'', ''avatar'', ''nickname'']
                             testWorld)))))))
       = {''username'', ''avatar''}
   \<and> set (assignedKeys (fst (createMapper UserDto
             (omitOpt [''nickname'', ''isAdult'', ''email''])
             (execAll [ClearCache, Map userEntity UserDto None]
                (snd (snd (Mapper_omit userEntity UserDto [''email'', ''isAdult'', ''nickname'']
                             testWorld)))))))
       = {''username'', ''avatar''}
   \<and> (\<exists>r. fst (Mapper_pick userEntity UserDto [''nickname'', ''avatar'', ''username'']
                   (execAll [ClearCache, Map userEntity UserDto None]
                      (snd (snd (Mapper_pick userEntity UserDto
                                   [''username'', ''avatar'', ''nickname''] testWorld)))))
              = Inr (JObj r)
            \<and> fst ` set r = {''username'', ''avatar''})
   \<and> (\<exists>r. fst (Mapper_omit userEntity UserDto [''nickname'', ''isAdult'', ''email'']
                   (execAll [ClearCache, Map userEntity UserDto None]
                      (snd (snd (Mapper_omit userEntity UserDto
                                   [''email'', ''isAdult'', ''nickname''] testWorld)))))
              = Inr (JObj r)
            \<and> fst ` set r = {''username'', ''avatar''})"
proof -
  let ?P = "[''username'', ''avatar'', ''nickname'']"
  let ?P' = "[''nickname'', ''avatar'', ''username'']"
  let ?O = "[''email'', ''isAdult'', ''nickname'']"
  let ?O' = "[''nickname'', ''isAdult'', ''email'']"
  let ?calls = "[ClearCache, Map userEntity UserDto None]"
  let ?sP = "execAll ?calls (snd (snd (Mapper_pick userEntity UserDto ?P testWorld)))"
  let ?sO = "execAll ?calls (snd (snd (Mapper_omit userEntity UserDto ?O testWorld)))"
  have f: "filter ignore (map snd (propertyConfigs (fst (getEntry UserDto testWorld)))) = []"
    by (simp add: fixture_defs run_defs)
  have h: "\<forall>c\<in>set (map snd (propertyConfigs (fst (getEntry UserDto testWorld)))). \<not> ignore c"
    by (simp add: fixture_defs run_defs)
  have pP: "mset ?P' = mset ?P"
    by simp
  have pO: "mset ?O' = mset ?O"
    by simp
  have missP: "fst (getCompiledMapper UserDto (Some (fst (getOptionsKey (pickOpt ?P)))) testWorld)
            = None"
    by (simp add: fixture_defs run_defs)
  have missO: "fst (getCompiledMapper UserDto (Some (fst (getOptionsKey (omitOpt ?O)))) testWorld)
            = None"
    by (simp add: fixture_defs run_defs)
  have d: "declaredKeys (fst (getEntry UserDto testWorld))
           = {''username'', ''avatar'', ''isAdult'', ''email''}"
    by (simp add: declaredKeys_def fixture_defs run_defs)
  have i: "\<not> isNullish userEntity"
    by (simp add: userEntity_def)
  have ok: "pathCacheOk testWorld"
    by (simp add: pathCacheOk_def testWorld_def)
  have "pathCacheOk (exec (Map userEntity UserDto (pickOpt ?P)) testWorld)"
    using ok by (rule exec_pathCacheOk)
  then have "pathCacheOk (snd (snd (Mapper_pick userEntity UserDto ?P testWorld)))"
    by (simp add: Mapper_pick_state)
  then have okP: "pathCacheOk ?sP"
    by (rule execAll_pathCacheOk)
  have "pathCacheOk (exec (Map userEntity UserDto (omitOpt ?O)) testWorld)"
    using ok by (rule exec_pathCacheOk)
  then have "pathCacheOk (snd (snd (Mapper_omit userEntity UserDto ?O testWorld)))"
    by (simp add: Mapper_omit_state)
  then have okO: "pathCacheOk ?sO"
    by (rule execAll_pathCacheOk)
  have nP: "newInstance ?sP UserDto = []"
    by (simp add: execAll_def fixture_defs run_defs)
  have nO: "newInstance ?sO UserDto = []"
    by (simp add: execAll_def fixture_defs run_defs)
  have rp: "mapperReturns (fst (createMapper UserDto (pickOpt ?P') ?sP)) userEntity
              (makeContext (pickOpt (sort ?P')) (snd (snd (createMapper UserDto (pickOpt ?P') ?sP))))
              ?sP"
    by (simp add: mapperReturns_def execAll_def fixture_defs run_defs)
  have ro: "mapperReturns (fst (createMapper UserDto (omitOpt ?O') ?sO)) userEntity
              (makeContext (omitOpt (sort ?O')) (snd (snd (createMapper UserDto (omitOpt ?O') ?sO))))
              ?sO"
    by (simp add: mapperReturns_def execAll_def fixture_defs run_defs)
  have neP: "?P \<noteq> []"
    by simp
  have stP: "?sP = testWorld \<or> ?sP = execAll ?calls (snd (snd (createMapper UserDto (pickOpt ?P) testWorld)))
         \<or> (\<not> isNullish userEntity \<and> ?sP = ?sP)"
    using i by simp
  have stO: "?sO = testWorld \<or> ?sO = execAll ?calls (snd (snd (createMapper UserDto (omitOpt ?O) testWorld)))
         \<or> (\<not> isNullish userEntity \<and> ?sO = ?sO)"
    using i by simp
  note cp = mp [OF conjunct1 [OF pick_omit_complementarity [OF h pP,
                     where s' = ?sP and calls = ?calls and ?src0.0 = userEntity and src = userEntity]]
                   conjI [OF neP conjI [OF missP stP]]]
  note co = mp [OF conjunct2 [OF pick_omit_complementarity [OF h pO,
                     where s' = ?sO and calls = ?calls and ?src0.0 = userEntity and src = userEntity]]
                   conjI [OF missO stO]]
  note kp = conjunct1 [OF cp]
  note ko = conjunct1 [OF co]
  obtain r1 where r1: "fst (Mapper_pick userEntity UserDto ?P' ?sP) = Inr (JObj r1)"
    using mp [OF conjunct2 [OF conjunct2 [OF cp]] conjI [OF i conjI [OF okP rp]]] by (rule exE)
  note k1 = mp [OF spec [OF conjunct1 [OF conjunct2 [OF cp]]] r1]
  obtain r2 where r2: "fst (Mapper_omit userEntity UserDto ?O' ?sO) = Inr (JObj r2)"
    using mp [OF conjunct2 [OF conjunct2 [OF co]] conjI [OF i conjI [OF okO ro]]] by (rule exE)
  note k2 = mp [OF spec [OF conjunct1 [OF conjunct2 [OF co]]] r2]
  have e1: "set ?P \<inter> {''username'', ''avatar'', ''isAdult'', ''email''} = {''username'', ''avatar''}"
    by auto
  have e2: "{''username'', ''avatar'', ''isAdult'', ''email''} - set ?O = {''username'', ''avatar''}"
    by auto
  have e3: "{''username'', ''avatar''} - {''__proto__''} = {''username'', ''avatar''}"
    by auto
  have a1: "set (assignedKeys (fst (createMapper UserDto (pickOpt ?P') ?sP)))
            = {''username'', ''avatar''}"
    using kp by (simp only: d e1)
  have a2: "set (assignedKeys (fst (createMapper UserDto (omitOpt ?O') ?sO)))
            = {''username'', ''avatar''}"
    using ko by (simp only: d e2)
  have b1: "fst ` set r1 = {''username'', ''avatar''}"
    using k1 by (simp only: nP d e1 e3) simp
  have b2: "fst ` set r2 = {''username'', ''avatar''}"
    using k2 by (simp only: nO d e2 e3) simp
  have x1: "\<exists>r. fst (Mapper_pick userEntity UserDto ?P' ?sP) = Inr (JObj r)
            \<and> fst ` set r = {''username'', ''avatar''}"
    using r1 b1 by (intro exI conjI)
  have x2: "\<exists>r. fst (Mapper_omit userEntity UserDto ?O' ?sO) = Inr (JObj r)
            \<and> fst ` set r = {''username'', ''avatar''}"
    using r2 b2 by (intro exI conjI)
  show ?thesis
    using f pP missP missO d a1 a2 x1 x2 by (intro conjI)
qed

text \<open>
  C4 as stated fails for the empty list: \<^verbatim>\<open>options.pick.length > 0\<close> takes an empty pick
  list for an absent option, and \<open>pick([])\<close> maps every declaration. It fails when the mapper
  cached under the signature was compiled for other options: after a compile with the
  single name \<^verbatim>\<open>avatar,username\<close>, which is not declared, \<open>pick([username, avatar])\<close>
  derives the same signature and maps nothing. And it fails for a declared key
  \<^verbatim>\<open>__proto__\<close>: the path of that name resolves to undefined, and the assignment
  \<^verbatim>\<open>result['__proto__'] = undefined\<close> creates no key, so the result of
  \<open>pick([name, __proto__])\<close> has the key \<^verbatim>\<open>name\<close> only.
\<close>

theorem empty_pick_maps_all:
  "set (assignedKeys (fst (createMapper UserDto (pickOpt []) testWorld)))
     \<noteq> set [] \<inter> declaredKeys (fst (getEntry UserDto testWorld))
   \<and> assignedKeys (fst (createMapper UserDto (pickOpt []) testWorld))
       = [''username'', ''avatar'', ''email'', ''isAdult'']
   \<and> fst (Mapper_pick userEntity UserDto [] testWorld)
       = Inr (JObj [(''username'', Data (JStr ''john_doe'')),
                    (''avatar'', Data (JStr ''https://example.com/avatar.jpg'')),
                    (''email'', Data (JStr ''john@example.com'')),
                    (''isAdult'', Data (JBool True))])
   \<and> fst (Mapper_pick userEntity UserDto [''username'', ''avatar'']
            (exec (CreateMapper UserDto (pickOpt [''avatar,username''])) testWorld))
       = Inr (JObj [])
   \<and> set [''name'', ''__proto__''] \<inter> declaredKeys (fst (getEntry ProtoDto protoWorld))
       = {''name'', ''__proto__''}
   \<and> fst (Mapper_pick protoSource ProtoDto [''name'', ''__proto__''] protoWorld)
       = Inr (JObj [(''name'', Data (JStr ''n''))])"
  by (simp add: assignedKeys_def declaredKeys_def ProtoDto_def protoWorld_def protoSource_def
      fixture_defs run_defs)

section \<open>Distinct signatures\<close>

text \<open>
  The identity of function objects separates mappers: the test "should cache different
  mappers for different options" of the source, in the model.
\<close>

lemma createMapper_distinct_example:
  "fid (fst (createMapper UserDto (pickOpt [''email''])
               (snd (snd (createMapper UserDto (pickOpt [''username'']) testWorld)))))
   \<noteq> fid (fst (createMapper UserDto (pickOpt [''username'']) testWorld))"
  by (simp add: fixture_defs run_defs)

end
